theory Spec2Isabelle
  imports Main "HOL-Library.Sublist"
begin

section \<open>The input data (\<^verbatim>\<open>src/data/sequences.json\<close>)\<close>

text \<open>
  The component \<^verbatim>\<open>src/components/Overview.tsx\<close> reads a list of sequences, each with an
  ordered list of videos. Identifiers, titles, colours and URLs are JavaScript strings; a
  character of the model stands for one code unit of such an input string. The field
  \<^verbatim>\<open>dependencies\<close> of a video is optional: \<open>None\<close> is the absent (falsy) field,
  \<open>Some ds\<close> an array, which is truthy even when it is empty.
\<close>

record video =
  v_id :: string
  v_title :: string
  v_description :: string
  v_url :: string
  v_dependencies :: "string list option"

record sequence =
  s_id :: string
  s_title :: string
  s_description :: string
  s_color :: string
  s_videos :: "video list"

section \<open>Nodes and edges handed to the graph library\<close>

datatype node_kind = sequenceHeader | videoNode

record position =
  pos_x :: nat
  pos_y :: nat

text \<open>
  The payload of a header node is \<^verbatim>\<open>{title, description, color}\<close>, that of a video node
  \<^verbatim>\<open>{title, description, url, sequenceColor}\<close>.
\<close>

datatype node_data =
  HeaderData string string string
  | VideoData string string string string

record node =
  node_id :: string
  node_type :: node_kind
  node_position :: position
  node_data :: node_data

record edge_style =
  stroke :: string
  strokeWidth :: nat
  strokeDasharray :: "string option"

text \<open>
  An edge carries its identifier, both end points with their handles, the line type and
  its style. A prerequisite edge has a label in addition; the constant label decoration
  (\<^verbatim>\<open>labelStyle\<close>, \<^verbatim>\<open>labelBgPadding\<close>, \<^verbatim>\<open>labelBgBorderRadius\<close>, \<^verbatim>\<open>labelBgStyle\<close>) is
  the same for every such edge and is represented by the presence of the label.
\<close>

record edge =
  edge_id :: string
  source :: string
  sourceHandle :: string
  target :: string
  targetHandle :: string
  edge_type :: string
  style :: edge_style
  label :: "string option"

section \<open>The URL-pattern recognizer \<^verbatim>\<open>getYouTubeVideoId\<close>\<close>

text \<open>
  The source matches the URL against the regular expression
  \<^verbatim>\<open>/(?:youtube\.com\/watch\?v=|youtu\.be\/|youtube\.com\/embed\/)([^&\n?#]+)/\<close>
  and returns the capture group, or \<^verbatim>\<open>null\<close> when there is no match. The expression is
  not anchored: the engine tries every start position from left to right; at a position it
  tries the three alternatives in order, and after an alternative the character class must
  consume at least one code unit and, being greedy with nothing after it, consumes the
  longest run.
\<close>

definition idChar :: "char \<Rightarrow> bool" where
  "idChar c = (c \<noteq> CHR ''&'' \<and> c \<noteq> CHR 0x0A \<and> c \<noteq> CHR ''?'' \<and> c \<noteq> CHR ''#'')"

definition shapes :: "string list" where
  "shapes = [''youtube.com/watch?v='', ''youtu.be/'', ''youtube.com/embed/'']"

definition matchAlternative :: "string \<Rightarrow> string \<Rightarrow> string option" where
  "matchAlternative p s =
     (if prefix p s \<and> takeWhile idChar (drop (length p) s) \<noteq> []
      then Some (takeWhile idChar (drop (length p) s)) else None)"

fun matchAlternatives :: "string list \<Rightarrow> string \<Rightarrow> string option" where
  "matchAlternatives [] s = None"
| "matchAlternatives (p # ps) s =
     (case matchAlternative p s of Some g \<Rightarrow> Some g | None \<Rightarrow> matchAlternatives ps s)"

fun regexSearch :: "string \<Rightarrow> string option" where
  "regexSearch [] = matchAlternatives shapes []"
| "regexSearch (c # cs) =
     (case matchAlternatives shapes (c # cs) of
        Some g \<Rightarrow> Some g
      | None \<Rightarrow> regexSearch cs)"

definition getYouTubeVideoId :: "string \<Rightarrow> string option" where
  "getYouTubeVideoId url = regexSearch url"

text \<open>
  \<^verbatim>\<open>VideoNode\<close> renders the embedded player under the guard \<^verbatim>\<open>videoId && ...\<close>: the
  identifier must be neither \<^verbatim>\<open>null\<close> nor the empty string.
\<close>

definition showsEmbed :: "string \<Rightarrow> bool" where
  "showsEmbed url = (case getYouTubeVideoId url of None \<Rightarrow> False | Some videoId \<Rightarrow> videoId \<noteq> [])"

section \<open>The diagram builder (the \<^verbatim>\<open>useMemo\<close> callback of \<^verbatim>\<open>Overview\<close>)\<close>

text \<open>
  The builder mutates two arrays and a counter; the model passes them as a state. All
  coordinates are products and sums of small natural numbers (an array has fewer than
  \<open>2^32\<close> elements), which JavaScript's numbers represent exactly.
\<close>

record builder =
  nodes :: "node list"
  edges :: "edge list"
  yOffset :: nat

definition sequenceSpacing :: nat where
  "sequenceSpacing = 600"

definition videoSpacing :: nat where
  "videoSpacing = 420"

definition headerNodeId :: "sequence \<Rightarrow> string" where
  "headerNodeId sequence = ''sequence-'' @ s_id sequence"

definition videoNodeId :: "sequence \<Rightarrow> video \<Rightarrow> string" where
  "videoNodeId sequence video = s_id sequence @ ''-'' @ v_id video"

definition headerNode :: "sequence \<Rightarrow> nat \<Rightarrow> node" where
  "headerNode sequence yOff =
     \<lparr>node_id = headerNodeId sequence,
      node_type = sequenceHeader,
      node_position = \<lparr>pos_x = 0, pos_y = yOff\<rparr>,
      node_data = HeaderData (s_title sequence) (s_description sequence) (s_color sequence)\<rparr>"

definition videoNodeOf :: "sequence \<Rightarrow> video \<Rightarrow> nat \<Rightarrow> nat \<Rightarrow> node" where
  "videoNodeOf sequence video videoIndex yOff =
     \<lparr>node_id = videoNodeId sequence video,
      node_type = videoNode,
      node_position = \<lparr>pos_x = (videoIndex + 1) * videoSpacing, pos_y = yOff\<rparr>,
      node_data = VideoData (v_title video) (v_description video) (v_url video) (s_color sequence)\<rparr>"

definition flowEdge :: "string \<Rightarrow> string \<Rightarrow> string \<Rightarrow> edge" where
  "flowEdge src tgt color =
     \<lparr>edge_id = src @ ''-'' @ tgt,
      source = src,
      sourceHandle = ''sequence-out'',
      target = tgt,
      targetHandle = ''sequence-in'',
      edge_type = ''smoothstep'',
      style = \<lparr>stroke = color, strokeWidth = 2, strokeDasharray = None\<rparr>,
      label = None\<rparr>"

text \<open>
  The label is the only string of the program with a character outside ASCII, the link
  emoji U+1F517. JavaScript holds it as two code units; it is written here as its four
  UTF-8 bytes, so this one string is two characters longer than in the program. Nothing
  below depends on the content of the label.
\<close>

definition prerequisiteLabel :: string where
  "prerequisiteLabel = [CHR 0xF0, CHR 0x9F, CHR 0x94, CHR 0x97] @ '' prerequisite''"

definition dependencyEdge :: "string \<Rightarrow> string \<Rightarrow> edge" where
  "dependencyEdge src tgt =
     \<lparr>edge_id = src @ ''-'' @ tgt @ ''-dependency'',
      source = src,
      sourceHandle = ''prereq-out'',
      target = tgt,
      targetHandle = ''prereq-in'',
      edge_type = ''smoothstep'',
      style = \<lparr>stroke = ''#ef4444'', strokeWidth = 3, strokeDasharray = Some ''8,4''\<rparr>,
      label = Some prerequisiteLabel\<rparr>"

text \<open>
  The two kinds of edges: a sequence-flow edge leaves the handle \<^verbatim>\<open>sequence-out\<close>, a
  prerequisite edge the handle \<^verbatim>\<open>prereq-out\<close>.
\<close>

definition isSequenceFlow :: "edge \<Rightarrow> bool" where
  "isSequenceFlow e = (sourceHandle e = ''sequence-out'' \<and> targetHandle e = ''sequence-in'')"

definition isPrerequisite :: "edge \<Rightarrow> bool" where
  "isPrerequisite e = (sourceHandle e = ''prereq-out'' \<and> targetHandle e = ''prereq-in'')"

text \<open>
  Dependency resolution, lines 176 to 179: the identifier is looked up among all videos
  of all sequences; when some video has it, the owning sequence is the first one, in input
  order, with such a video. The optional chaining \<^verbatim>\<open>?.id\<close> yields \<^verbatim>\<open>undefined\<close>, which a
  template literal prints as the word \<^verbatim>\<open>undefined\<close>, when no sequence is found.
\<close>

definition hasVideo :: "string \<Rightarrow> sequence \<Rightarrow> bool" where
  "hasVideo depId seq = list_ex (\<lambda>v. v_id v = depId) (s_videos seq)"

definition sourceNodeId :: "sequence list \<Rightarrow> string \<Rightarrow> string option" where
  "sourceNodeId sequences depId =
     (case find (\<lambda>v. v_id v = depId) (concat (map s_videos sequences)) of
        None \<Rightarrow> None
      | Some _ \<Rightarrow>
          Some ((case find (hasVideo depId) sequences of
                   None \<Rightarrow> ''undefined''
                 | Some seq \<Rightarrow> s_id seq) @ ''-'' @ depId))"

text \<open>
  The body of \<^verbatim>\<open>video.dependencies.forEach\<close>: the guard \<^verbatim>\<open>if (sourceNodeId)\<close> is false
  for \<^verbatim>\<open>null\<close> and for the empty string.
\<close>

definition addDependency :: "sequence list \<Rightarrow> string \<Rightarrow> edge list \<Rightarrow> string \<Rightarrow> edge list" where
  "addDependency sequences nodeId es depId =
     (case sourceNodeId sequences depId of
        None \<Rightarrow> es
      | Some src \<Rightarrow> if src \<noteq> [] then es @ [dependencyEdge src nodeId] else es)"

text \<open>
  The body of \<^verbatim>\<open>sequence.videos.forEach((video, videoIndex) => ...)\<close>. The index
  \<open>videoIndex - 1\<close> is read only when \<open>0 < videoIndex\<close>, and \<^verbatim>\<open>forEach\<close> passes only
  indices of the array, so the read is in range.
\<close>

definition processVideo :: "sequence list \<Rightarrow> sequence \<Rightarrow> builder \<Rightarrow> nat \<times> video \<Rightarrow> builder" where
  "processVideo sequences sequence st iv =
     (let videoIndex = fst iv;
          video = snd iv;
          nodeId = videoNodeId sequence video;
          st1 = st\<lparr>nodes := nodes st @ [videoNodeOf sequence video videoIndex (yOffset st)]\<rparr>;
          st2 = (if videoIndex = 0
                 then st1\<lparr>edges := edges st1 @ [flowEdge (headerNodeId sequence) nodeId (s_color sequence)]\<rparr>
                 else st1);
          st3 = (if videoIndex > 0
                 then st2\<lparr>edges := edges st2 @
                        [flowEdge (videoNodeId sequence (s_videos sequence ! (videoIndex - 1)))
                           nodeId (s_color sequence)]\<rparr>
                 else st2)
      in (case v_dependencies video of
            None \<Rightarrow> st3
          | Some deps \<Rightarrow> st3\<lparr>edges := foldl (addDependency sequences nodeId) (edges st3) deps\<rparr>))"

text \<open>The body of \<^verbatim>\<open>sequences.forEach((sequence) => ...)\<close>.\<close>

definition processSequence :: "sequence list \<Rightarrow> builder \<Rightarrow> sequence \<Rightarrow> builder" where
  "processSequence sequences st sequence =
     (let st1 = st\<lparr>nodes := nodes st @ [headerNode sequence (yOffset st)]\<rparr>;
          st2 = foldl (processVideo sequences sequence) st1 (enumerate 0 (s_videos sequence))
      in st2\<lparr>yOffset := yOffset st2 + sequenceSpacing\<rparr>)"

definition initialBuilder :: builder where
  "initialBuilder = \<lparr>nodes = [], edges = [], yOffset = 0\<rparr>"

definition Overview :: "sequence list \<Rightarrow> builder" where
  "Overview sequences = foldl (processSequence sequences) initialBuilder sequences"

definition initialNodes :: "sequence list \<Rightarrow> node list" where
  "initialNodes sequences = nodes (Overview sequences)"

definition initialEdges :: "sequence list \<Rightarrow> edge list" where
  "initialEdges sequences = edges (Overview sequences)"

section \<open>Derived notions used in the statements\<close>

text \<open>
  What one run of a loop body appends to the edge array: the edges of the state after the
  body, without those that were there before.
\<close>

definition emittedEdges :: "sequence list \<Rightarrow> builder \<Rightarrow> sequence \<Rightarrow> edge list" where
  "emittedEdges sequences st sequence =
     drop (length (edges st)) (edges (processSequence sequences st sequence))"

definition emittedNodes :: "sequence list \<Rightarrow> builder \<Rightarrow> sequence \<Rightarrow> node list" where
  "emittedNodes sequences st sequence =
     drop (length (nodes st)) (nodes (processSequence sequences st sequence))"

definition emittedForVideo :: "sequence list \<Rightarrow> sequence \<Rightarrow> builder \<Rightarrow> nat \<times> video \<Rightarrow> edge list" where
  "emittedForVideo sequences sequence st iv =
     drop (length (edges st)) (edges (processVideo sequences sequence st iv))"

text \<open>
  The run of the builder as a relation. A \<^verbatim>\<open>forEach\<close> loop relates the state before it to
  the state after it through the states between its iterations; the three loop bodies are
  given statement by statement, each rule one path through the body. A dependency entry
  either pushes an edge or, when the resolved identifier is \<^verbatim>\<open>null\<close> or empty, leaves
  the edge array alone; a video runs the inner loop only when its dependency list is
  present. A run of the whole builder starts from the empty arrays and the offset 0.
\<close>

inductive forEach :: "('s \<Rightarrow> 'a \<Rightarrow> 's \<Rightarrow> bool) \<Rightarrow> 's \<Rightarrow> 'a list \<Rightarrow> 's \<Rightarrow> bool"
  for body :: "'s \<Rightarrow> 'a \<Rightarrow> 's \<Rightarrow> bool" where
  forEach_done: "forEach body st [] st"
| forEach_next: "body st x st' \<Longrightarrow> forEach body st' xs st'' \<Longrightarrow> forEach body st (x # xs) st''"

inductive runDependency :: "sequence list \<Rightarrow> string \<Rightarrow> edge list \<Rightarrow> string \<Rightarrow> edge list \<Rightarrow> bool"
  for sequences :: "sequence list" and nodeId :: string where
  dependency_pushed:
    "sourceNodeId sequences depId = Some src \<Longrightarrow> src \<noteq> [] \<Longrightarrow>
       runDependency sequences nodeId es depId (es @ [dependencyEdge src nodeId])"
| dependency_null:
    "sourceNodeId sequences depId = None \<Longrightarrow> runDependency sequences nodeId es depId es"
| dependency_empty:
    "sourceNodeId sequences depId = Some [] \<Longrightarrow> runDependency sequences nodeId es depId es"

inductive runVideo :: "sequence list \<Rightarrow> sequence \<Rightarrow> builder \<Rightarrow> nat \<times> video \<Rightarrow> builder \<Rightarrow> bool"
  for sequences :: "sequence list" and sequence :: sequence where
  video_plain:
    "st1 = st\<lparr>nodes := nodes st @ [videoNodeOf sequence video videoIndex (yOffset st)]\<rparr> \<Longrightarrow>
     st2 = (if videoIndex = 0
            then st1\<lparr>edges := edges st1 @
                   [flowEdge (headerNodeId sequence) (videoNodeId sequence video) (s_color sequence)]\<rparr>
            else st1) \<Longrightarrow>
     st3 = (if videoIndex > 0
            then st2\<lparr>edges := edges st2 @
                   [flowEdge (videoNodeId sequence (s_videos sequence ! (videoIndex - 1)))
                      (videoNodeId sequence video) (s_color sequence)]\<rparr>
            else st2) \<Longrightarrow>
     v_dependencies video = None \<Longrightarrow>
     runVideo sequences sequence st (videoIndex, video) st3"
| video_dependencies:
    "st1 = st\<lparr>nodes := nodes st @ [videoNodeOf sequence video videoIndex (yOffset st)]\<rparr> \<Longrightarrow>
     st2 = (if videoIndex = 0
            then st1\<lparr>edges := edges st1 @
                   [flowEdge (headerNodeId sequence) (videoNodeId sequence video) (s_color sequence)]\<rparr>
            else st1) \<Longrightarrow>
     st3 = (if videoIndex > 0
            then st2\<lparr>edges := edges st2 @
                   [flowEdge (videoNodeId sequence (s_videos sequence ! (videoIndex - 1)))
                      (videoNodeId sequence video) (s_color sequence)]\<rparr>
            else st2) \<Longrightarrow>
     v_dependencies video = Some deps \<Longrightarrow>
     forEach (runDependency sequences (videoNodeId sequence video)) (edges st3) deps es \<Longrightarrow>
     runVideo sequences sequence st (videoIndex, video) (st3\<lparr>edges := es\<rparr>)"

inductive runSequence :: "sequence list \<Rightarrow> builder \<Rightarrow> sequence \<Rightarrow> builder \<Rightarrow> bool"
  for sequences :: "sequence list" where
  sequence_run:
    "st1 = st\<lparr>nodes := nodes st @ [headerNode sequence (yOffset st)]\<rparr> \<Longrightarrow>
     forEach (runVideo sequences sequence) st1 (enumerate 0 (s_videos sequence)) st2 \<Longrightarrow>
     runSequence sequences st sequence (st2\<lparr>yOffset := yOffset st2 + sequenceSpacing\<rparr>)"

definition runOverview :: "sequence list \<Rightarrow> builder \<Rightarrow> bool" where
  "runOverview sequences result = forEach (runSequence sequences) initialBuilder sequences result"

text \<open>
  Closed forms of the three loops. They are not part of the program; the lemmas of the
  next section prove that the loops compute them.
\<close>

definition dependencyEdges :: "sequence list \<Rightarrow> string \<Rightarrow> string list \<Rightarrow> edge list" where
  "dependencyEdges sequences nodeId deps =
     concat (map (\<lambda>depId. case sourceNodeId sequences depId of
                              None \<Rightarrow> []
                            | Some src \<Rightarrow> [dependencyEdge src nodeId]) deps)"

definition videoEdges :: "sequence list \<Rightarrow> sequence \<Rightarrow> nat \<times> video \<Rightarrow> edge list" where
  "videoEdges sequences sequence iv =
     flowEdge (if fst iv = 0 then headerNodeId sequence
               else videoNodeId sequence (s_videos sequence ! (fst iv - 1)))
        (videoNodeId sequence (snd iv)) (s_color sequence)
     # (case v_dependencies (snd iv) of
          None \<Rightarrow> []
        | Some deps \<Rightarrow> dependencyEdges sequences (videoNodeId sequence (snd iv)) deps)"

definition sequenceNodes :: "sequence \<Rightarrow> nat \<Rightarrow> node list" where
  "sequenceNodes sequence yOff =
     headerNode sequence yOff
     # map (\<lambda>iv. videoNodeOf sequence (snd iv) (fst iv) yOff) (enumerate 0 (s_videos sequence))"

definition sequenceEdges :: "sequence list \<Rightarrow> sequence \<Rightarrow> edge list" where
  "sequenceEdges sequences sequence =
     concat (map (videoEdges sequences sequence) (enumerate 0 (s_videos sequence)))"

definition sequenceNodeIds :: "sequence \<Rightarrow> string list" where
  "sequenceNodeIds sequence = headerNodeId sequence # map (videoNodeId sequence) (s_videos sequence)"

text \<open>
  The reading of "the URL matches one of the known shapes" by the words of the
  specification: one of the three fixed strings occurs in the URL.
\<close>

definition containsShape :: "string \<Rightarrow> bool" where
  "containsShape url = list_ex (\<lambda>p. sublist p url) shapes"

text \<open>
  A node identifier cut at its first hyphen, and the pairs the identifiers of one sequence
  are cut into when the sequence identifier has no hyphen.
\<close>

definition splitKey :: "string \<Rightarrow> string \<times> string" where
  "splitKey n = (takeWhile (\<lambda>c. c \<noteq> CHR ''-'') n, drop 1 (dropWhile (\<lambda>c. c \<noteq> CHR ''-'') n))"

definition keysOf :: "sequence \<Rightarrow> (string \<times> string) list" where
  "keysOf s = (''sequence'', s_id s) # map (\<lambda>v. (s_id s, v_id v)) (s_videos s)"

text \<open>
  Concrete inputs. Titles, descriptions, colours and URLs play no part in the shape of the
  diagram and are left empty.
\<close>

definition mkVideo :: "string \<Rightarrow> string list option \<Rightarrow> video" where
  "mkVideo i deps = \<lparr>v_id = i, v_title = [], v_description = [], v_url = [], v_dependencies = deps\<rparr>"

definition mkSequence :: "string \<Rightarrow> video list \<Rightarrow> sequence" where
  "mkSequence i vs = \<lparr>s_id = i, s_title = [], s_description = [], s_color = [], s_videos = vs\<rparr>"

text \<open>
  The example of the specification: sequence A with the videos a1 and a2, sequence B with
  the video b1, which depends on a2.
\<close>

definition exampleInput :: "sequence list" where
  "exampleInput =
     [mkSequence ''A'' [mkVideo ''a1'' None, mkVideo ''a2'' None],
      mkSequence ''B'' [mkVideo ''b1'' (Some [''a2''])]]"

text \<open>
  The example with a second, unknown entry \<^verbatim>\<open>zz\<close> in the dependency list of b1, and an
  input whose first sequence has no videos.
\<close>

definition danglingInput :: "sequence list" where
  "danglingInput =
     [mkSequence ''A'' [mkVideo ''a1'' None, mkVideo ''a2'' None],
      mkSequence ''B'' [mkVideo ''b1'' (Some [''a2'', ''zz''])]]"

definition emptyFirstInput :: "sequence list" where
  "emptyFirstInput = [mkSequence ''E'' [], mkSequence ''A'' [mkVideo ''a1'' None]]"

text \<open>
  Three inputs with unique video identifiers in every sequence: a sequence identifier
  with a hyphen, a repeated sequence identifier, and a sequence called \<^verbatim>\<open>sequence\<close>.
\<close>

definition hyphenInput :: "sequence list" where
  "hyphenInput =
     [mkSequence ''aws'' [mkVideo ''ec2-1'' None],
      mkSequence ''aws-ec2'' [mkVideo ''1'' None]]"

definition repeatedInput :: "sequence list" where
  "repeatedInput = [mkSequence ''aws'' [], mkSequence ''aws'' []]"

definition prefixInput :: "sequence list" where
  "prefixInput = [mkSequence ''sequence'' [mkVideo ''aws'' None], mkSequence ''aws'' []]"

text \<open>An input where the video identifier \<^verbatim>\<open>shared\<close> occurs in two sequences.\<close>

definition sharedInput :: "sequence list" where
  "sharedInput =
     [mkSequence ''X'' [mkVideo ''x1'' None],
      mkSequence ''P'' [mkVideo ''shared'' None],
      mkSequence ''Q'' [mkVideo ''shared'' None, mkVideo ''q2'' (Some [''shared''])]]"

section \<open>The loops in closed form\<close>

lemmas build_defs =
  initialNodes_def initialEdges_def Overview_def processSequence_def processVideo_def
  initialBuilder_def enumerate_eq_zip headerNode_def videoNodeOf_def headerNodeId_def
  videoNodeId_def Let_def mkVideo_def mkSequence_def addDependency_def sourceNodeId_def
  hasVideo_def sequenceSpacing_def videoSpacing_def

lemma sourceNodeId_nonempty: "sourceNodeId sequences depId = Some src \<Longrightarrow> src \<noteq> []"
  by (auto simp: sourceNodeId_def split: option.splits)

lemma addDependency_eq:
  "addDependency sequences nodeId es depId =
     es @ (case sourceNodeId sequences depId of None \<Rightarrow> [] | Some src \<Rightarrow> [dependencyEdge src nodeId])"
  by (auto simp: addDependency_def dest: sourceNodeId_nonempty split: option.splits)

lemma foldl_addDependency:
  "foldl (addDependency sequences nodeId) es deps = es @ dependencyEdges sequences nodeId deps"
  by (induction deps arbitrary: es) (simp_all add: dependencyEdges_def addDependency_eq)

lemma processVideo_nodes:
  "nodes (processVideo sequences sequence st iv) =
     nodes st @ [videoNodeOf sequence (snd iv) (fst iv) (yOffset st)]"
  by (simp add: processVideo_def Let_def split: option.splits)

lemma processVideo_yOffset: "yOffset (processVideo sequences sequence st iv) = yOffset st"
  by (simp add: processVideo_def Let_def split: option.splits)

lemma processVideo_edges:
  "edges (processVideo sequences sequence st iv) = edges st @ videoEdges sequences sequence iv"
  by (simp add: processVideo_def videoEdges_def Let_def foldl_addDependency split: option.splits)

lemma foldl_processVideo_yOffset:
  "yOffset (foldl (processVideo sequences sequence) st ivs) = yOffset st"
  by (induction ivs arbitrary: st) (simp_all add: processVideo_yOffset)

lemma foldl_processVideo_nodes:
  "nodes (foldl (processVideo sequences sequence) st ivs) =
     nodes st @ map (\<lambda>iv. videoNodeOf sequence (snd iv) (fst iv) (yOffset st)) ivs"
  by (induction ivs arbitrary: st) (simp_all add: processVideo_nodes processVideo_yOffset)

lemma foldl_processVideo_edges:
  "edges (foldl (processVideo sequences sequence) st ivs) =
     edges st @ concat (map (videoEdges sequences sequence) ivs)"
  by (induction ivs arbitrary: st) (simp_all add: processVideo_edges)

lemma processSequence_nodes:
  "nodes (processSequence sequences st sequence) = nodes st @ sequenceNodes sequence (yOffset st)"
  by (simp add: processSequence_def Let_def foldl_processVideo_nodes sequenceNodes_def)

lemma processSequence_edges:
  "edges (processSequence sequences st sequence) = edges st @ sequenceEdges sequences sequence"
  by (simp add: processSequence_def Let_def foldl_processVideo_edges sequenceEdges_def)

lemma processSequence_yOffset:
  "yOffset (processSequence sequences st sequence) = yOffset st + sequenceSpacing"
  by (simp add: processSequence_def Let_def foldl_processVideo_yOffset)

lemma foldl_processSequence_yOffset:
  "yOffset (foldl (processSequence sequences) st ss) = yOffset st + length ss * sequenceSpacing"
  by (induction ss arbitrary: st) (simp_all add: processSequence_yOffset)

lemma foldl_processSequence_edges:
  "edges (foldl (processSequence sequences) st ss) =
     edges st @ concat (map (sequenceEdges sequences) ss)"
  by (induction ss arbitrary: st) (simp_all add: processSequence_edges)

lemma foldl_processSequence_nodes:
  "nodes (foldl (processSequence sequences) st ss) =
     nodes st @ concat (map (\<lambda>k. sequenceNodes (ss ! k) (yOffset st + k * sequenceSpacing))
                          [0..<length ss])"
proof (induction ss arbitrary: st)
  case Nil
  show ?case by simp
next
  case (Cons s ss)
  have shift: "map (\<lambda>k. sequenceNodes ((s # ss) ! k) (yOffset st + k * sequenceSpacing)) [0..<length (s # ss)]
     = sequenceNodes s (yOffset st)
       # map (\<lambda>k. sequenceNodes (ss ! k) (yOffset st + sequenceSpacing + k * sequenceSpacing)) [0..<length ss]"
  proof -
    have "[0..<length (s # ss)] = 0 # map Suc [0..<length ss]"
      by (simp add: upt_conv_Cons map_Suc_upt del: upt_Suc)
    then show ?thesis by (simp add: comp_def add.assoc)
  qed
  show ?case
    unfolding shift by (simp add: Cons.IH processSequence_nodes processSequence_yOffset)
qed

lemma initialEdges_eq: "initialEdges sequences = concat (map (sequenceEdges sequences) sequences)"
  by (simp add: initialEdges_def Overview_def foldl_processSequence_edges initialBuilder_def)

lemma initialNodes_eq:
  "initialNodes sequences =
     concat (map (\<lambda>k. sequenceNodes (sequences ! k) (k * sequenceSpacing)) [0..<length sequences])"
  by (simp add: initialNodes_def Overview_def foldl_processSequence_nodes initialBuilder_def)

lemma enumerate_as_map: "enumerate 0 xs = map (\<lambda>i. (i, xs ! i)) [0..<length xs]"
  by (rule nth_equalityI) (simp_all add: nth_enumerate_eq)

lemma map_snd_enumerate: "map (\<lambda>iv. f (snd iv)) (enumerate n xs) = map f xs"
  by (induction xs arbitrary: n) simp_all

lemma concat_map_index: "concat (map (\<lambda>k. g (ss ! k)) [0..<length ss]) = concat (map g ss)"
proof -
  have "map (\<lambda>k. g (ss ! k)) [0..<length ss] = map g (map (\<lambda>k. ss ! k) [0..<length ss])"
    by (simp add: comp_def)
  then show ?thesis by (simp only: map_nth)
qed

section \<open>Sequence-flow edges\<close>

lemma isSequenceFlow_simps [simp]:
  "isSequenceFlow (flowEdge a b c)" "\<not> isSequenceFlow (dependencyEdge a b)"
  "isPrerequisite (dependencyEdge a b)" "\<not> isPrerequisite (flowEdge a b c)"
  by (simp_all add: isSequenceFlow_def isPrerequisite_def flowEdge_def dependencyEdge_def)

lemma filter_flow_dependencyEdges [simp]:
  "filter isSequenceFlow (dependencyEdges sequences n deps) = []"
  "filter isPrerequisite (dependencyEdges sequences n deps) = dependencyEdges sequences n deps"
  by (induction deps) (simp_all add: dependencyEdges_def split: option.splits)

lemma filter_flow_videoEdges:
  "filter isSequenceFlow (videoEdges sequences sequence iv) =
     [flowEdge (if fst iv = 0 then headerNodeId sequence
                else videoNodeId sequence (s_videos sequence ! (fst iv - 1)))
        (videoNodeId sequence (snd iv)) (s_color sequence)]"
  by (simp add: videoEdges_def split: option.splits)

lemma filter_flow_concat_videoEdges:
  "filter isSequenceFlow (concat (map (videoEdges sequences sequence) ivs)) =
     map (\<lambda>iv. flowEdge (if fst iv = 0 then headerNodeId sequence
                          else videoNodeId sequence (s_videos sequence ! (fst iv - 1)))
                 (videoNodeId sequence (snd iv)) (s_color sequence)) ivs"
  by (induction ivs) (simp_all add: filter_flow_videoEdges)

lemma filter_flow_sequenceEdges:
  "filter isSequenceFlow (sequenceEdges sequences sequence) =
     map (\<lambda>i. flowEdge (if i = 0 then headerNodeId sequence
                         else videoNodeId sequence (s_videos sequence ! (i - 1)))
                (videoNodeId sequence (s_videos sequence ! i)) (s_color sequence))
       [0..<length (s_videos sequence)]"
  unfolding sequenceEdges_def filter_flow_concat_videoEdges
  by (simp add: enumerate_as_map comp_def)

lemma length_filter_flow_concat:
  "length (filter isSequenceFlow (concat (map (sequenceEdges sequences) ss))) =
     sum_list (map (\<lambda>s. length (s_videos s)) ss)"
  by (induction ss) (simp_all add: filter_flow_sequenceEdges)

lemma emittedNodes_eq:
  "emittedNodes sequences st sequence = sequenceNodes sequence (yOffset st)"
  by (simp add: emittedNodes_def processSequence_nodes)

lemma flow_endpoints_sequence:
  "map (\<lambda>e. (source e, target e)) (filter isSequenceFlow (sequenceEdges sequences s)) =
     map (\<lambda>i. (if i = 0 then ''sequence-'' @ s_id s
                 else s_id s @ ''-'' @ v_id (s_videos s ! (i - 1)),
                 s_id s @ ''-'' @ v_id (s_videos s ! i)))
       [0..<length (s_videos s)]"
  unfolding filter_flow_sequenceEdges
  by (simp add: comp_def flowEdge_def headerNodeId_def videoNodeId_def)

lemma flow_endpoints_concat:
  "map (\<lambda>e. (source e, target e))
      (filter isSequenceFlow (concat (map (sequenceEdges sequences) ss))) =
     concat (map (\<lambda>s. map (\<lambda>i. (if i = 0 then ''sequence-'' @ s_id s
                                     else s_id s @ ''-'' @ v_id (s_videos s ! (i - 1)),
                                     s_id s @ ''-'' @ v_id (s_videos s ! i)))
                          [0..<length (s_videos s)]) ss)"
  by (induction ss) (simp_all add: flow_endpoints_sequence)

text \<open>
  Claim C1. Whatever the state before it, processing one sequence appends its header node
  \<^verbatim>\<open>sequence-\<close>\<open>id\<close> and one node \<open>id\<close>\<^verbatim>\<open>-\<close>\<open>video\<close> per video, and appends edges of which
  exactly as many are sequence-flow edges as the sequence has videos: in order, the edge
  whose source is the header node and whose target is the node of the first video, then
  for every later video the edge from the node of the video before it to its own node.
  The sequence-flow edges of the whole diagram are these edges, sequence after sequence,
  so their number is the total number of videos.
\<close>

theorem sequence_flow_edges:
  "edges (processSequence sequences st sequence) = edges st @ emittedEdges sequences st sequence
   \<and> nodes (processSequence sequences st sequence) = nodes st @ emittedNodes sequences st sequence
   \<and> map (\<lambda>n. (node_id n, node_type n)) (emittedNodes sequences st sequence) =
       (''sequence-'' @ s_id sequence, sequenceHeader)
       # map (\<lambda>v. (s_id sequence @ ''-'' @ v_id v, videoNode)) (s_videos sequence)
   \<and> length (filter isSequenceFlow (emittedEdges sequences st sequence)) = length (s_videos sequence)
   \<and> filter isSequenceFlow (emittedEdges sequences st sequence) =
       map (\<lambda>i. flowEdge (if i = 0 then headerNodeId sequence
                           else videoNodeId sequence (s_videos sequence ! (i - 1)))
                  (videoNodeId sequence (s_videos sequence ! i)) (s_color sequence))
         [0..<length (s_videos sequence)]
   \<and> map (\<lambda>e. (source e, target e)) (filter isSequenceFlow (emittedEdges sequences st sequence)) =
       map (\<lambda>i. (if i = 0 then ''sequence-'' @ s_id sequence
                   else s_id sequence @ ''-'' @ v_id (s_videos sequence ! (i - 1)),
                   s_id sequence @ ''-'' @ v_id (s_videos sequence ! i)))
         [0..<length (s_videos sequence)]
   \<and> map (\<lambda>e. (source e, target e)) (filter isSequenceFlow (initialEdges sequences)) =
       concat (map (\<lambda>s. map (\<lambda>i. (if i = 0 then ''sequence-'' @ s_id s
                                       else s_id s @ ''-'' @ v_id (s_videos s ! (i - 1)),
                                       s_id s @ ''-'' @ v_id (s_videos s ! i)))
                            [0..<length (s_videos s)]) sequences)
   \<and> length (filter isSequenceFlow (initialEdges sequences)) =
       sum_list (map (\<lambda>s. length (s_videos s)) sequences)"
proof -
  have e: "emittedEdges sequences st sequence = sequenceEdges sequences sequence"
    by (simp add: emittedEdges_def processSequence_edges)
  have a: "edges (processSequence sequences st sequence) = edges st @ emittedEdges sequences st sequence"
    unfolding e by (rule processSequence_edges)
  have b: "nodes (processSequence sequences st sequence) = nodes st @ emittedNodes sequences st sequence"
    unfolding emittedNodes_eq by (rule processSequence_nodes)
  have c: "map (\<lambda>n. (node_id n, node_type n)) (emittedNodes sequences st sequence) =
       (''sequence-'' @ s_id sequence, sequenceHeader)
       # map (\<lambda>v. (s_id sequence @ ''-'' @ v_id v, videoNode)) (s_videos sequence)"
    unfolding emittedNodes_eq
    by (simp add: sequenceNodes_def headerNode_def videoNodeOf_def headerNodeId_def
        videoNodeId_def comp_def
        map_snd_enumerate [of "\<lambda>v. (s_id sequence @ CHR ''-'' # v_id v, videoNode)"])
  have d: "filter isSequenceFlow (emittedEdges sequences st sequence) =
       map (\<lambda>i. flowEdge (if i = 0 then headerNodeId sequence
                           else videoNodeId sequence (s_videos sequence ! (i - 1)))
                  (videoNodeId sequence (s_videos sequence ! i)) (s_color sequence))
         [0..<length (s_videos sequence)]"
    unfolding e by (rule filter_flow_sequenceEdges)
  have d': "length (filter isSequenceFlow (emittedEdges sequences st sequence)) = length (s_videos sequence)"
    unfolding d by simp
  have f: "map (\<lambda>e. (source e, target e)) (filter isSequenceFlow (emittedEdges sequences st sequence)) =
       map (\<lambda>i. (if i = 0 then ''sequence-'' @ s_id sequence
                   else s_id sequence @ ''-'' @ v_id (s_videos sequence ! (i - 1)),
                   s_id sequence @ ''-'' @ v_id (s_videos sequence ! i)))
         [0..<length (s_videos sequence)]"
    unfolding e filter_flow_sequenceEdges
    by (simp add: comp_def flowEdge_def headerNodeId_def videoNodeId_def)
  have ie: "initialEdges sequences = concat (map (sequenceEdges sequences) sequences)"
    by (simp add: initialEdges_def Overview_def foldl_processSequence_edges initialBuilder_def)
  have g: "map (\<lambda>e. (source e, target e)) (filter isSequenceFlow (initialEdges sequences)) =
       concat (map (\<lambda>s. map (\<lambda>i. (if i = 0 then ''sequence-'' @ s_id s
                                       else s_id s @ ''-'' @ v_id (s_videos s ! (i - 1)),
                                       s_id s @ ''-'' @ v_id (s_videos s ! i)))
                            [0..<length (s_videos s)]) sequences)"
    unfolding ie by (rule flow_endpoints_concat)
  have h: "length (filter isSequenceFlow (initialEdges sequences)) =
       sum_list (map (\<lambda>s. length (s_videos s)) sequences)"
    unfolding ie by (rule length_filter_flow_concat)
  from a b c d' d f g h show ?thesis by blast
qed

theorem sequence_flow_edges_witness:
  "map (\<lambda>e. (source e, target e))
      (filter isSequenceFlow
         (emittedEdges exampleInput initialBuilder
            (mkSequence ''A'' [mkVideo ''a1'' None, mkVideo ''a2'' None]))) =
     [(''sequence-A'', ''A-a1''), (''A-a1'', ''A-a2'')]
   \<and> map (\<lambda>n. (node_id n, node_type n))
        (emittedNodes exampleInput initialBuilder
           (mkSequence ''A'' [mkVideo ''a1'' None, mkVideo ''a2'' None])) =
       [(''sequence-A'', sequenceHeader), (''A-a1'', videoNode), (''A-a2'', videoNode)]
   \<and> map (\<lambda>e. (source e, target e)) (filter isSequenceFlow (initialEdges exampleInput)) =
       [(''sequence-A'', ''A-a1''), (''A-a1'', ''A-a2''), (''sequence-B'', ''B-b1'')]
   \<and> length (filter isSequenceFlow (initialEdges exampleInput)) = 3"
proof -
  note t = sequence_flow_edges [of exampleInput initialBuilder
      "mkSequence ''A'' [mkVideo ''a1'' None, mkVideo ''a2'' None]"]
  note c = t [THEN conjunct2, THEN conjunct2, THEN conjunct1]
  note f = t [THEN conjunct2, THEN conjunct2, THEN conjunct2, THEN conjunct2, THEN conjunct2,
      THEN conjunct1]
  note g = t [THEN conjunct2, THEN conjunct2, THEN conjunct2, THEN conjunct2, THEN conjunct2,
      THEN conjunct2, THEN conjunct1]
  note h = t [THEN conjunct2, THEN conjunct2, THEN conjunct2, THEN conjunct2, THEN conjunct2,
      THEN conjunct2, THEN conjunct2]
  have 1: "map (\<lambda>e. (source e, target e))
      (filter isSequenceFlow
         (emittedEdges exampleInput initialBuilder
            (mkSequence ''A'' [mkVideo ''a1'' None, mkVideo ''a2'' None]))) =
     [(''sequence-A'', ''A-a1''), (''A-a1'', ''A-a2'')]"
    unfolding f by (simp add: mkSequence_def mkVideo_def)
  have 2: "map (\<lambda>n. (node_id n, node_type n))
        (emittedNodes exampleInput initialBuilder
           (mkSequence ''A'' [mkVideo ''a1'' None, mkVideo ''a2'' None])) =
       [(''sequence-A'', sequenceHeader), (''A-a1'', videoNode), (''A-a2'', videoNode)]"
    unfolding c by (simp add: mkSequence_def mkVideo_def)
  have 3: "map (\<lambda>e. (source e, target e)) (filter isSequenceFlow (initialEdges exampleInput)) =
       [(''sequence-A'', ''A-a1''), (''A-a1'', ''A-a2''), (''sequence-B'', ''B-b1'')]"
    by (simp add: exampleInput_def build_defs flowEdge_def dependencyEdge_def isSequenceFlow_def)
  have 4: "length (filter isSequenceFlow (initialEdges exampleInput)) = 3"
    by (simp add: exampleInput_def build_defs flowEdge_def dependencyEdge_def isSequenceFlow_def)
  from 1 2 3 4 g h show ?thesis by blast
qed

section \<open>Node identifiers and node counts\<close>

lemma node_id_sequenceNodes: "map node_id (sequenceNodes s y) = sequenceNodeIds s"
  by (simp add: sequenceNodes_def sequenceNodeIds_def headerNode_def videoNodeOf_def comp_def
      map_snd_enumerate)

lemma node_ids_eq: "map node_id (initialNodes sequences) = concat (map sequenceNodeIds sequences)"
proof -
  have "map node_id (initialNodes sequences) =
      concat (map (\<lambda>k. sequenceNodeIds (sequences ! k)) [0..<length sequences])"
    by (simp add: initialNodes_eq map_concat comp_def node_id_sequenceNodes)
  then show ?thesis by (simp only: concat_map_index)
qed

lemma video_node_present:
  "q \<in> set sequences \<Longrightarrow> w \<in> set (s_videos q) \<Longrightarrow>
     videoNodeId q w \<in> set (map node_id (initialNodes sequences))"
  unfolding node_ids_eq by (auto simp: sequenceNodeIds_def)

lemma length_sequenceNodes: "length (sequenceNodes s y) = 1 + length (s_videos s)"
  by (simp add: sequenceNodes_def)

lemma length_concat_sequenceNodes:
  "length (concat (map (\<lambda>k. sequenceNodes (ss ! k) (f k)) [0..<length ss])) =
     length ss + sum_list (map (\<lambda>s. length (s_videos s)) ss)"
proof -
  have "length (concat (map (\<lambda>k. sequenceNodes (ss ! k) (f k)) [0..<length ss])) =
      sum_list (map (\<lambda>k. 1 + length (s_videos (ss ! k))) [0..<length ss])"
    by (simp add: length_concat comp_def length_sequenceNodes)
  also have "\<dots> = sum_list (map (\<lambda>s. 1 + length (s_videos s)) (map (\<lambda>k. ss ! k) [0..<length ss]))"
    by (simp add: comp_def)
  also have "\<dots> = sum_list (map (\<lambda>s. 1 + length (s_videos s)) ss)"
    by (simp only: map_nth)
  also have "\<dots> = length ss + sum_list (map (\<lambda>s. length (s_videos s)) ss)"
    by (induction ss) simp_all
  finally show ?thesis .
qed

text \<open>
  Claim C10. The diagram has one node per sequence and one node per video: the number of
  nodes is the number of sequences plus the total number of videos, and of these nodes
  exactly the first kind are header nodes. Dependency lists and URLs do not occur in the
  count.
\<close>

theorem node_count:
  "length (initialNodes sequences) =
     length sequences + sum_list (map (\<lambda>s. length (s_videos s)) sequences)
   \<and> length (filter (\<lambda>n. node_type n = sequenceHeader) (initialNodes sequences)) = length sequences
   \<and> length (filter (\<lambda>n. node_type n = videoNode) (initialNodes sequences)) =
       sum_list (map (\<lambda>s. length (s_videos s)) sequences)"
proof -
  have h: "filter (\<lambda>n. node_type n = sequenceHeader) (sequenceNodes s y) = [headerNode s y]" for s y
    by (simp add: sequenceNodes_def headerNode_def videoNodeOf_def)
  have v: "length (filter (\<lambda>n. node_type n = videoNode) (sequenceNodes s y)) = length (s_videos s)" for s y
    by (simp add: sequenceNodes_def headerNode_def videoNodeOf_def)
  have hs: "length (filter (\<lambda>n. node_type n = sequenceHeader)
      (concat (map (\<lambda>k. sequenceNodes (g k) (f k)) ks))) = length ks" for g f and ks :: "nat list"
    by (induction ks) (simp_all add: h)
  have vs: "length (filter (\<lambda>n. node_type n = videoNode)
      (concat (map (\<lambda>k. sequenceNodes (g k) (f k)) ks))) =
      sum_list (map (\<lambda>k. length (s_videos (g k))) ks)" for g f and ks :: "nat list"
    by (induction ks) (simp_all add: v)
  have "sum_list (map (\<lambda>k. length (s_videos (sequences ! k))) [0..<length sequences]) =
      sum_list (map (\<lambda>s. length (s_videos s)) (map (\<lambda>k. sequences ! k) [0..<length sequences]))"
    by (simp add: comp_def)
  then have ix: "sum_list (map (\<lambda>k. length (s_videos (sequences ! k))) [0..<length sequences]) =
      sum_list (map (\<lambda>s. length (s_videos s)) sequences)"
    by (simp only: map_nth)
  show ?thesis
    by (simp add: initialNodes_eq length_concat_sequenceNodes hs vs ix)
qed

text \<open>
  Claim C9. A sequence without videos adds its header node and nothing else: the node
  array grows by the one node \<^verbatim>\<open>sequence-\<close>\<open>id\<close> of type \<^verbatim>\<open>sequenceHeader\<close> at the horizontal
  origin and the current vertical offset, the edge array stays as it was, and the
  vertical offset advances by the spacing constant 600. In a run of the whole builder on
  \<open>pre @ sequence # post\<close> the state reached after \<open>pre\<close> thus gains exactly that node, at
  the offset 600 times the length of \<open>pre\<close>, and the sequences of \<open>post\<close> are processed
  from the offset 600 further down.
\<close>

theorem empty_sequence:
  assumes "s_videos sequence = []"
  shows "processSequence sequences st sequence =
       st\<lparr>nodes := nodes st @ [headerNode sequence (yOffset st)],
          yOffset := yOffset st + sequenceSpacing\<rparr>
     \<and> sequenceSpacing = 600
     \<and> headerNode sequence (yOffset st) =
         \<lparr>node_id = ''sequence-'' @ s_id sequence,
          node_type = sequenceHeader,
          node_position = \<lparr>pos_x = 0, pos_y = yOffset st\<rparr>,
          node_data = HeaderData (s_title sequence) (s_description sequence) (s_color sequence)\<rparr>
     \<and> edges (processSequence sequences st sequence) = edges st
     \<and> length (nodes (processSequence sequences st sequence)) = length (nodes st) + 1
     \<and> (sequences = pre @ sequence # post \<longrightarrow>
          yOffset (foldl (processSequence sequences) initialBuilder pre) = length pre * 600
          \<and> Overview sequences =
              foldl (processSequence sequences)
                ((foldl (processSequence sequences) initialBuilder pre)
                   \<lparr>nodes := nodes (foldl (processSequence sequences) initialBuilder pre) @
                      [\<lparr>node_id = ''sequence-'' @ s_id sequence,
                        node_type = sequenceHeader,
                        node_position = \<lparr>pos_x = 0, pos_y = length pre * 600\<rparr>,
                        node_data = HeaderData (s_title sequence) (s_description sequence)
                                      (s_color sequence)\<rparr>],
                    yOffset := length pre * 600 + 600\<rparr>)
                post)"
proof -
  have p: "processSequence sequences st sequence =
       st\<lparr>nodes := nodes st @ [headerNode sequence (yOffset st)],
          yOffset := yOffset st + sequenceSpacing\<rparr>" for sequences st
    using assms by (simp add: processSequence_def Let_def enumerate_eq_zip)
  have h: "headerNode sequence y =
         \<lparr>node_id = ''sequence-'' @ s_id sequence,
          node_type = sequenceHeader,
          node_position = \<lparr>pos_x = 0, pos_y = y\<rparr>,
          node_data = HeaderData (s_title sequence) (s_description sequence) (s_color sequence)\<rparr>" for y
    by (simp add: headerNode_def headerNodeId_def)
  have y: "yOffset (foldl (processSequence sequences) initialBuilder pre) = length pre * 600"
    by (simp add: foldl_processSequence_yOffset initialBuilder_def sequenceSpacing_def)
  have o: "Overview (pre @ sequence # post) =
      foldl (processSequence (pre @ sequence # post))
        ((foldl (processSequence (pre @ sequence # post)) initialBuilder pre)
           \<lparr>nodes := nodes (foldl (processSequence (pre @ sequence # post)) initialBuilder pre) @
              [\<lparr>node_id = ''sequence-'' @ s_id sequence,
                node_type = sequenceHeader,
                node_position = \<lparr>pos_x = 0, pos_y = length pre * 600\<rparr>,
                node_data = HeaderData (s_title sequence) (s_description sequence)
                              (s_color sequence)\<rparr>],
            yOffset := length pre * 600 + 600\<rparr>)
        post"
    by (simp add: Overview_def p h foldl_processSequence_yOffset initialBuilder_def
        sequenceSpacing_def)
  have w: "sequences = pre @ sequence # post \<longrightarrow>
          yOffset (foldl (processSequence sequences) initialBuilder pre) = length pre * 600
          \<and> Overview sequences =
              foldl (processSequence sequences)
                ((foldl (processSequence sequences) initialBuilder pre)
                   \<lparr>nodes := nodes (foldl (processSequence sequences) initialBuilder pre) @
                      [\<lparr>node_id = ''sequence-'' @ s_id sequence,
                        node_type = sequenceHeader,
                        node_position = \<lparr>pos_x = 0, pos_y = length pre * 600\<rparr>,
                        node_data = HeaderData (s_title sequence) (s_description sequence)
                                      (s_color sequence)\<rparr>],
                    yOffset := length pre * 600 + 600\<rparr>)
                post"
  proof
    assume eq: "sequences = pre @ sequence # post"
    show "yOffset (foldl (processSequence sequences) initialBuilder pre) = length pre * 600
          \<and> Overview sequences =
              foldl (processSequence sequences)
                ((foldl (processSequence sequences) initialBuilder pre)
                   \<lparr>nodes := nodes (foldl (processSequence sequences) initialBuilder pre) @
                      [\<lparr>node_id = ''sequence-'' @ s_id sequence,
                        node_type = sequenceHeader,
                        node_position = \<lparr>pos_x = 0, pos_y = length pre * 600\<rparr>,
                        node_data = HeaderData (s_title sequence) (s_description sequence)
                                      (s_color sequence)\<rparr>],
                    yOffset := length pre * 600 + 600\<rparr>)
                post"
      using y o unfolding eq by (rule conjI)
  qed
  have e: "edges (processSequence sequences st sequence) = edges st"
    by (simp add: p)
  have l: "length (nodes (processSequence sequences st sequence)) = length (nodes st) + 1"
    by (simp add: p)
  have c: "sequenceSpacing = 600"
    by (simp add: sequenceSpacing_def)
  from p c h [of "yOffset st"] e l w show ?thesis by blast
qed

theorem empty_sequence_witness:
  "s_videos (mkSequence ''E'' []) = []
   \<and> emptyFirstInput = [] @ mkSequence ''E'' [] # [mkSequence ''A'' [mkVideo ''a1'' None]]
   \<and> processSequence emptyFirstInput initialBuilder (mkSequence ''E'' []) =
       \<lparr>nodes = [\<lparr>node_id = ''sequence-E'', node_type = sequenceHeader,
                  node_position = \<lparr>pos_x = 0, pos_y = 0\<rparr>,
                  node_data = HeaderData [] [] []\<rparr>],
        edges = [], yOffset = 600\<rparr>
   \<and> map (\<lambda>n. (node_id n, node_type n, pos_x (node_position n), pos_y (node_position n)))
        (initialNodes emptyFirstInput) =
       [(''sequence-E'', sequenceHeader, 0, 0), (''sequence-A'', sequenceHeader, 0, 600),
        (''A-a1'', videoNode, 420, 600)]
   \<and> map (\<lambda>e. (source e, target e)) (initialEdges emptyFirstInput) = [(''sequence-A'', ''A-a1'')]"
proof -
  have a: "s_videos (mkSequence ''E'' []) = []"
    by (simp add: mkSequence_def)
  have b: "emptyFirstInput = [] @ mkSequence ''E'' [] # [mkSequence ''A'' [mkVideo ''a1'' None]]"
    by (simp add: emptyFirstInput_def)
  note t = empty_sequence [OF a, of emptyFirstInput initialBuilder "[]"
      "[mkSequence ''A'' [mkVideo ''a1'' None]]"]
  have 1: "processSequence emptyFirstInput initialBuilder (mkSequence ''E'' []) =
       \<lparr>nodes = [\<lparr>node_id = ''sequence-E'', node_type = sequenceHeader,
                  node_position = \<lparr>pos_x = 0, pos_y = 0\<rparr>,
                  node_data = HeaderData [] [] []\<rparr>],
        edges = [], yOffset = 600\<rparr>"
    using t by (simp add: initialBuilder_def mkSequence_def)
  have 2: "map (\<lambda>n. (node_id n, node_type n, pos_x (node_position n), pos_y (node_position n)))
        (initialNodes emptyFirstInput) =
       [(''sequence-E'', sequenceHeader, 0, 0), (''sequence-A'', sequenceHeader, 0, 600),
        (''A-a1'', videoNode, 420, 600)]"
    by (simp add: emptyFirstInput_def build_defs)
  have 3: "map (\<lambda>e. (source e, target e)) (initialEdges emptyFirstInput) = [(''sequence-A'', ''A-a1'')]"
    by (simp add: emptyFirstInput_def build_defs flowEdge_def)
  from a b 1 2 3 show ?thesis by blast
qed

section \<open>The layout grid\<close>

text \<open>
  Claim C5. The nodes are, band by band in input order, the header node of the \<open>k\<close>-th
  sequence at \<open>(0, 600 k)\<close> followed by the node of its \<open>i\<close>-th video at
  \<open>(420 (i + 1), 600 k)\<close> (both indices from 0): the vertical offset is the sequence's
  position times the spacing 600, the header stands at the horizontal origin, and the
  videos follow it in steps of 420.
\<close>

theorem grid_positions:
  "initialNodes sequences =
     concat (map (\<lambda>k. headerNode (sequences ! k) (k * sequenceSpacing)
                       # map (\<lambda>i. videoNodeOf (sequences ! k) (s_videos (sequences ! k) ! i) i
                                    (k * sequenceSpacing))
                           [0..<length (s_videos (sequences ! k))])
               [0..<length sequences])
   \<and> node_position (headerNode s y) = \<lparr>pos_x = 0, pos_y = y\<rparr>
   \<and> node_position (videoNodeOf s v i y) = \<lparr>pos_x = (i + 1) * videoSpacing, pos_y = y\<rparr>
   \<and> sequenceSpacing = 600 \<and> videoSpacing = 420"
  by (simp add: initialNodes_eq sequenceNodes_def enumerate_as_map comp_def headerNode_def
      videoNodeOf_def sequenceSpacing_def videoSpacing_def)

section \<open>Determinism\<close>

lemma forEach_function:
  assumes "\<And>st x st'. body st x st' = (st' = f st x)"
  shows "forEach body st xs st' = (st' = foldl f st xs)"
proof (induction xs arbitrary: st)
  case Nil
  show ?case by (auto elim: forEach.cases intro: forEach.intros)
next
  case (Cons x xs)
  show ?case
  proof
    assume "forEach body st (x # xs) st'"
    then obtain m where "body st x m" "forEach body m xs st'"
      by (auto elim: forEach.cases)
    then show "st' = foldl f st (x # xs)"
      using assms Cons.IH by simp
  next
    assume "st' = foldl f st (x # xs)"
    then have "forEach body (f st x) xs st'"
      using Cons.IH by simp
    moreover have "body st x (f st x)"
      using assms by simp
    ultimately show "forEach body st (x # xs) st'"
      by (rule forEach_next [rotated])
  qed
qed

text \<open>
  Claim C6. A run of the builder, as a relation between the input and the final state,
  exists for every sequence list and is unique: any two runs on the same list end with
  the same node list, identifiers and positions included, and the same edge list, which
  are the lists \<open>initialNodes\<close> and \<open>initialEdges\<close> of the functional model.
\<close>

theorem builder_deterministic:
  "(\<exists>result. runOverview sequences result)
   \<and> runOverview sequences (Overview sequences)
   \<and> (runOverview sequences r1 \<and> runOverview sequences r2 \<longrightarrow>
        nodes r1 = nodes r2
        \<and> map node_id (nodes r1) = map node_id (nodes r2)
        \<and> map node_position (nodes r1) = map node_position (nodes r2)
        \<and> edges r1 = edges r2)
   \<and> (runOverview sequences r1 \<longrightarrow>
        nodes r1 = initialNodes sequences \<and> edges r1 = initialEdges sequences)"
proof -
  have dep: "runDependency S n es d es' = (es' = addDependency S n es d)" for S n es d es'
    by (auto simp: runDependency.simps addDependency_def split: option.splits)
  have deps: "forEach (runDependency S n) es ds es' = (es' = foldl (addDependency S n) es ds)"
    for S n es ds es'
    by (rule forEach_function [OF dep])
  have vid: "runVideo S s st iv st' = (st' = processVideo S s st iv)" for S s st iv st'
  proof (cases iv)
    case (Pair videoIndex video)
    show ?thesis
      unfolding Pair runVideo.simps deps
      by (cases "v_dependencies video") (auto simp: processVideo_def Let_def)
  qed
  have vids: "forEach (runVideo S s) st ivs st' = (st' = foldl (processVideo S s) st ivs)"
    for S s st ivs st'
    by (rule forEach_function [OF vid])
  have seq: "runSequence S st s st' = (st' = processSequence S st s)" for S st s st'
    unfolding runSequence.simps vids by (auto simp: processSequence_def Let_def)
  have r: "runOverview sequences result =
      (result = foldl (processSequence sequences) initialBuilder sequences)" for result
    unfolding runOverview_def by (rule forEach_function [OF seq])
  show ?thesis
    by (auto simp: r initialNodes_def initialEdges_def Overview_def)
qed

theorem builder_deterministic_witness:
  "runOverview exampleInput (Overview exampleInput)
   \<and> runOverview exampleInput
        \<lparr>nodes = initialNodes exampleInput, edges = initialEdges exampleInput, yOffset = 1200\<rparr>
   \<and> map node_id (nodes (Overview exampleInput)) =
       [''sequence-A'', ''A-a1'', ''A-a2'', ''sequence-B'', ''B-b1'']
   \<and> map node_position (nodes (Overview exampleInput)) =
       map node_position (initialNodes exampleInput)
   \<and> edges (Overview exampleInput) = initialEdges exampleInput"
proof -
  note t = builder_deterministic [of exampleInput "Overview exampleInput"
      "\<lparr>nodes = initialNodes exampleInput, edges = initialEdges exampleInput, yOffset = 1200\<rparr>"]
  have a: "runOverview exampleInput (Overview exampleInput)"
    using t by blast
  have "Overview exampleInput =
      \<lparr>nodes = initialNodes exampleInput, edges = initialEdges exampleInput, yOffset = 1200\<rparr>"
    by (rule builder.equality)
      (simp_all add: initialNodes_def initialEdges_def Overview_def processSequence_yOffset
        initialBuilder_def sequenceSpacing_def exampleInput_def)
  with a have b: "runOverview exampleInput
        \<lparr>nodes = initialNodes exampleInput, edges = initialEdges exampleInput, yOffset = 1200\<rparr>"
    by simp
  have c: "map node_id (initialNodes exampleInput) =
       [''sequence-A'', ''A-a1'', ''A-a2'', ''sequence-B'', ''B-b1'']"
    by (simp add: exampleInput_def build_defs)
  from t a b c show ?thesis by simp
qed

section \<open>Dependency resolution\<close>

lemma find_first:
  "\<forall>q\<in>set pre. \<not> P q \<Longrightarrow> P x \<Longrightarrow> find P (pre @ x # post) = Some x"
  by (induction pre) simp_all

lemma find_video_Some:
  "q \<in> set sequences \<Longrightarrow> w \<in> set (s_videos q) \<Longrightarrow> v_id w = depId \<Longrightarrow>
     find (\<lambda>v. v_id v = depId) (concat (map s_videos sequences)) \<noteq> None"
  by (auto simp: find_None_iff)

lemma sourceNodeId_None:
  "\<not> (\<exists>q\<in>set sequences. \<exists>w\<in>set (s_videos q). v_id w = depId) \<Longrightarrow>
     sourceNodeId sequences depId = None"
proof -
  assume a: "\<not> (\<exists>q\<in>set sequences. \<exists>w\<in>set (s_videos q). v_id w = depId)"
  then have "find (\<lambda>v. v_id v = depId) (concat (map s_videos sequences)) = None"
    by (auto simp: find_None_iff)
  then show ?thesis by (simp add: sourceNodeId_def)
qed

lemma sourceNodeId_Some:
  assumes "\<exists>q\<in>set sequences. \<exists>w\<in>set (s_videos q). v_id w = depId"
  shows "\<exists>q\<in>set sequences. \<exists>w\<in>set (s_videos q).
           v_id w = depId \<and> sourceNodeId sequences depId = Some (videoNodeId q w)"
proof -
  from assms obtain q0 w0 where q0: "q0 \<in> set sequences" "w0 \<in> set (s_videos q0)" "v_id w0 = depId"
    by blast
  then have g: "find (\<lambda>v. v_id v = depId) (concat (map s_videos sequences)) \<noteq> None"
    by (rule find_video_Some)
  have "hasVideo depId q0"
    using q0 by (auto simp: hasVideo_def list_ex_iff)
  then have "find (hasVideo depId) sequences \<noteq> None"
    using q0(1) by (auto simp: find_None_iff)
  then obtain q where q: "find (hasVideo depId) sequences = Some q"
    by blast
  then have "q \<in> set sequences" "hasVideo depId q"
    by (auto simp: find_Some_iff)
  then obtain w where w: "w \<in> set (s_videos q)" "v_id w = depId"
    by (auto simp: hasVideo_def list_ex_iff)
  have "sourceNodeId sequences depId = Some (videoNodeId q w)"
    using g q w(2) by (auto simp: sourceNodeId_def videoNodeId_def split: option.splits)
  with \<open>q \<in> set sequences\<close> w show ?thesis by blast
qed

text \<open>
  Claim C8. When the sequence list is \<open>pre @ sequence # post\<close>, no sequence of \<open>pre\<close> has
  a video with the identifier and \<open>sequence\<close> has one, a reference to the identifier
  resolves to \<open>sequence\<close>, whatever \<open>post\<close> contains: the prerequisite edge starts at the
  node named from the identifier of that first sequence.
\<close>

theorem first_owning_sequence:
  assumes "sequences = pre @ sequence # post"
    and "\<forall>q\<in>set pre. \<forall>u\<in>set (s_videos q). v_id u \<noteq> depId"
    and "w \<in> set (s_videos sequence)" and "v_id w = depId"
  shows "sourceNodeId sequences depId = Some (s_id sequence @ ''-'' @ depId)
     \<and> addDependency sequences nodeId es depId =
         es @ [dependencyEdge (s_id sequence @ ''-'' @ depId) nodeId]
     \<and> source (dependencyEdge (s_id sequence @ ''-'' @ depId) nodeId) = videoNodeId sequence w"
proof -
  have "\<forall>q\<in>set pre. \<not> hasVideo depId q"
    using assms(2) by (auto simp: hasVideo_def list_ex_iff)
  moreover have "hasVideo depId sequence"
    using assms(3,4) by (auto simp: hasVideo_def list_ex_iff)
  ultimately have f: "find (hasVideo depId) sequences = Some sequence"
    unfolding assms(1) by (rule find_first)
  have "sequence \<in> set sequences"
    by (simp add: assms(1))
  then have g: "find (\<lambda>v. v_id v = depId) (concat (map s_videos sequences)) \<noteq> None"
    using assms(3,4) by (rule find_video_Some)
  have s: "sourceNodeId sequences depId = Some (s_id sequence @ ''-'' @ depId)"
    using f g by (auto simp: sourceNodeId_def split: option.splits)
  show ?thesis
    by (simp add: s addDependency_eq dependencyEdge_def videoNodeId_def assms(4))
qed

theorem first_owning_sequence_witness:
  "sourceNodeId sharedInput ''shared'' = Some ''P-shared''
   \<and> addDependency sharedInput ''Q-q2'' [] ''shared'' = [dependencyEdge ''P-shared'' ''Q-q2'']
   \<and> map (\<lambda>e. (source e, target e)) (filter isPrerequisite (initialEdges sharedInput)) =
       [(''P-shared'', ''Q-q2'')]"
proof -
  have a: "sharedInput =
      [mkSequence ''X'' [mkVideo ''x1'' None]] @ mkSequence ''P'' [mkVideo ''shared'' None]
      # [mkSequence ''Q'' [mkVideo ''shared'' None, mkVideo ''q2'' (Some [''shared''])]]"
    by (simp add: sharedInput_def)
  have b: "\<forall>q\<in>set [mkSequence ''X'' [mkVideo ''x1'' None]]. \<forall>u\<in>set (s_videos q). v_id u \<noteq> ''shared''"
    by (simp add: mkSequence_def mkVideo_def)
  have c: "mkVideo ''shared'' None \<in> set (s_videos (mkSequence ''P'' [mkVideo ''shared'' None]))"
    by (simp add: mkSequence_def)
  have d: "v_id (mkVideo ''shared'' None) = ''shared''"
    by (simp add: mkVideo_def)
  have e: "map (\<lambda>e. (source e, target e)) (filter isPrerequisite (initialEdges sharedInput)) =
       [(''P-shared'', ''Q-q2'')]"
    by (simp add: sharedInput_def build_defs flowEdge_def dependencyEdge_def isPrerequisite_def)
  from first_owning_sequence [OF a b c d, of "''Q-q2''" "[]"] e show ?thesis
    by (simp add: mkSequence_def)
qed

lemma filter_prerequisite_videoEdges:
  "filter isPrerequisite (videoEdges sequences sequence iv) =
     concat (map (\<lambda>depId. case sourceNodeId sequences depId of
                             None \<Rightarrow> []
                           | Some src \<Rightarrow> [dependencyEdge src (videoNodeId sequence (snd iv))])
               (case v_dependencies (snd iv) of None \<Rightarrow> [] | Some deps \<Rightarrow> deps))"
proof -
  have "filter isPrerequisite (videoEdges sequences sequence iv) =
      (case v_dependencies (snd iv) of
         None \<Rightarrow> []
       | Some deps \<Rightarrow> dependencyEdges sequences (videoNodeId sequence (snd iv)) deps)"
    by (simp add: videoEdges_def split: option.splits)
  then show ?thesis
    by (simp add: dependencyEdges_def split: option.splits)
qed

lemma filter_prerequisite_sequenceEdges:
  "filter isPrerequisite (sequenceEdges sequences s) =
     concat (map (\<lambda>v. concat (map (\<lambda>depId. case sourceNodeId sequences depId of
                                               None \<Rightarrow> []
                                             | Some src \<Rightarrow> [dependencyEdge src (videoNodeId s v)])
                                 (case v_dependencies v of None \<Rightarrow> [] | Some deps \<Rightarrow> deps)))
               (s_videos s))"
  unfolding sequenceEdges_def filter_concat map_map comp_def filter_prerequisite_videoEdges
  by (rule arg_cong [where f = concat]) (rule map_snd_enumerate)

lemma filter_prerequisite_concat:
  "filter isPrerequisite (concat (map (sequenceEdges sequences) ss)) =
     concat (map (\<lambda>s. concat (map (\<lambda>v. concat (map (\<lambda>depId. case sourceNodeId sequences depId of
                                               None \<Rightarrow> []
                                             | Some src \<Rightarrow> [dependencyEdge src (videoNodeId s v)])
                                 (case v_dependencies v of None \<Rightarrow> [] | Some deps \<Rightarrow> deps)))
               (s_videos s))) ss)"
  by (induction ss) (simp_all add: filter_prerequisite_sequenceEdges)

text \<open>
  Claim C2. The prerequisite edges of the diagram are, sequence by sequence and video by
  video, in the order of each dependency list, one edge per entry that resolves and none
  per entry that does not; an absent dependency list gives none. The same holds for the
  edges that processing a single video appends, whatever the state before it. An
  identifier resolves exactly when some video of some sequence has it, and then the source
  of the edge is the node \<open>id\<close>\<^verbatim>\<open>-\<close>\<open>identifier\<close> of such a video, a node of the diagram, and
  its target is the node of the dependent video. The builder has no failing branch: an
  entry that does not resolve leaves the edge list as it is, and every node and every
  sequence-flow edge is produced whatever the dependency lists contain.
\<close>

theorem prerequisite_edges:
  "edges (processVideo sequences sequence st iv) =
     edges st @ emittedForVideo sequences sequence st iv
   \<and> filter isPrerequisite (emittedForVideo sequences sequence st iv) =
       concat (map (\<lambda>depId. case sourceNodeId sequences depId of
                               None \<Rightarrow> []
                             | Some src \<Rightarrow> [dependencyEdge src (videoNodeId sequence (snd iv))])
                 (case v_dependencies (snd iv) of None \<Rightarrow> [] | Some deps \<Rightarrow> deps))
   \<and> filter isPrerequisite (initialEdges sequences) =
       concat (map (\<lambda>s. concat (map (\<lambda>v. concat (map (\<lambda>depId. case sourceNodeId sequences depId of
                                               None \<Rightarrow> []
                                             | Some src \<Rightarrow> [dependencyEdge src (videoNodeId s v)])
                                 (case v_dependencies v of None \<Rightarrow> [] | Some deps \<Rightarrow> deps)))
               (s_videos s))) sequences)
   \<and> ((\<exists>q\<in>set sequences. \<exists>w\<in>set (s_videos q). v_id w = d) \<longrightarrow>
        (\<exists>q\<in>set sequences. \<exists>w\<in>set (s_videos q).
            v_id w = d \<and> sourceNodeId sequences d = Some (videoNodeId q w)
            \<and> videoNodeId q w = s_id q @ ''-'' @ d
            \<and> videoNodeId q w \<in> set (map node_id (initialNodes sequences))))
   \<and> (\<not> (\<exists>q\<in>set sequences. \<exists>w\<in>set (s_videos q). v_id w = d) \<longrightarrow>
        sourceNodeId sequences d = None)
   \<and> source (dependencyEdge src n) = src \<and> target (dependencyEdge src n) = n
   \<and> isPrerequisite (dependencyEdge src n)
   \<and> videoNodeId sequence (snd iv) = s_id sequence @ ''-'' @ v_id (snd iv)
   \<and> length (initialNodes sequences) =
       length sequences + sum_list (map (\<lambda>s. length (s_videos s)) sequences)
   \<and> length (filter isSequenceFlow (initialEdges sequences)) =
       sum_list (map (\<lambda>s. length (s_videos s)) sequences)"
proof -
  have e: "emittedForVideo sequences sequence st iv = videoEdges sequences sequence iv"
    by (simp add: emittedForVideo_def processVideo_edges)
  have a: "edges (processVideo sequences sequence st iv) =
     edges st @ emittedForVideo sequences sequence st iv"
    unfolding e by (rule processVideo_edges)
  have b: "filter isPrerequisite (emittedForVideo sequences sequence st iv) =
       concat (map (\<lambda>depId. case sourceNodeId sequences depId of
                               None \<Rightarrow> []
                             | Some src \<Rightarrow> [dependencyEdge src (videoNodeId sequence (snd iv))])
                 (case v_dependencies (snd iv) of None \<Rightarrow> [] | Some deps \<Rightarrow> deps))"
    unfolding e by (rule filter_prerequisite_videoEdges)
  have ie: "initialEdges sequences = concat (map (sequenceEdges sequences) sequences)"
    by (simp add: initialEdges_def Overview_def foldl_processSequence_edges initialBuilder_def)
  have w: "filter isPrerequisite (initialEdges sequences) =
       concat (map (\<lambda>s. concat (map (\<lambda>v. concat (map (\<lambda>depId. case sourceNodeId sequences depId of
                                               None \<Rightarrow> []
                                             | Some src \<Rightarrow> [dependencyEdge src (videoNodeId s v)])
                                 (case v_dependencies v of None \<Rightarrow> [] | Some deps \<Rightarrow> deps)))
               (s_videos s))) sequences)"
    unfolding ie by (rule filter_prerequisite_concat)
  have c: "(\<exists>q\<in>set sequences. \<exists>w\<in>set (s_videos q). v_id w = d) \<longrightarrow>
        (\<exists>q\<in>set sequences. \<exists>w\<in>set (s_videos q).
            v_id w = d \<and> sourceNodeId sequences d = Some (videoNodeId q w)
            \<and> videoNodeId q w = s_id q @ ''-'' @ d
            \<and> videoNodeId q w \<in> set (map node_id (initialNodes sequences)))"
  proof
    assume "\<exists>q\<in>set sequences. \<exists>w\<in>set (s_videos q). v_id w = d"
    from sourceNodeId_Some [OF this] obtain q w where
      h: "q \<in> set sequences" "w \<in> set (s_videos q)" "v_id w = d"
        "sourceNodeId sequences d = Some (videoNodeId q w)"
      by blast
    have "videoNodeId q w = s_id q @ ''-'' @ d"
      by (simp add: videoNodeId_def h(3))
    moreover have "videoNodeId q w \<in> set (map node_id (initialNodes sequences))"
      using h(1,2) by (rule video_node_present)
    ultimately show "\<exists>q\<in>set sequences. \<exists>w\<in>set (s_videos q).
            v_id w = d \<and> sourceNodeId sequences d = Some (videoNodeId q w)
            \<and> videoNodeId q w = s_id q @ ''-'' @ d
            \<and> videoNodeId q w \<in> set (map node_id (initialNodes sequences))"
      using h by blast
  qed
  have d: "\<not> (\<exists>q\<in>set sequences. \<exists>w\<in>set (s_videos q). v_id w = d) \<longrightarrow>
        sourceNodeId sequences d = None"
    using sourceNodeId_None by blast
  have f: "source (dependencyEdge src n) = src \<and> target (dependencyEdge src n) = n
     \<and> isPrerequisite (dependencyEdge src n)"
    by (simp add: dependencyEdge_def isPrerequisite_def)
  have g: "videoNodeId sequence (snd iv) = s_id sequence @ ''-'' @ v_id (snd iv)"
    by (simp add: videoNodeId_def)
  have h: "length (initialNodes sequences) =
       length sequences + sum_list (map (\<lambda>s. length (s_videos s)) sequences)"
    by (simp add: initialNodes_def Overview_def foldl_processSequence_nodes initialBuilder_def
        length_concat_sequenceNodes)
  have i: "length (filter isSequenceFlow (initialEdges sequences)) =
       sum_list (map (\<lambda>s. length (s_videos s)) sequences)"
    unfolding ie by (rule length_filter_flow_concat)
  from a b w c d f g h i show ?thesis by blast
qed

theorem prerequisite_edges_witness:
  "map (\<lambda>e. (source e, sourceHandle e, target e, targetHandle e))
      (filter isPrerequisite (initialEdges danglingInput)) =
     [(''A-a2'', ''prereq-out'', ''B-b1'', ''prereq-in'')]
   \<and> map (\<lambda>e. (source e, target e))
        (filter isPrerequisite
           (emittedForVideo danglingInput (danglingInput ! 1) initialBuilder
              (0, mkVideo ''b1'' (Some [''a2'', ''zz''])))) =
       [(''A-a2'', ''B-b1'')]
   \<and> (\<exists>q\<in>set danglingInput. \<exists>w\<in>set (s_videos q). v_id w = ''a2'')
   \<and> sourceNodeId danglingInput ''a2'' = Some ''A-a2''
   \<and> ''A-a2'' \<in> set (map node_id (initialNodes danglingInput))
   \<and> \<not> (\<exists>q\<in>set danglingInput. \<exists>w\<in>set (s_videos q). v_id w = ''zz'')
   \<and> sourceNodeId danglingInput ''zz'' = None
   \<and> length (initialNodes danglingInput) = 5
   \<and> length (filter isSequenceFlow (initialEdges danglingInput)) = 3"
proof -
  note t = prerequisite_edges [of danglingInput "danglingInput ! 1" initialBuilder
      "(0, mkVideo ''b1'' (Some [''a2'', ''zz'']))" "''a2''"]
  note z = prerequisite_edges [of danglingInput "danglingInput ! 1" initialBuilder
      "(0, mkVideo ''b1'' (Some [''a2'', ''zz'']))" "''zz''"]
  note tb = t [THEN conjunct2, THEN conjunct1]
  note tw = t [THEN conjunct2, THEN conjunct2, THEN conjunct1]
  note tc = t [THEN conjunct2, THEN conjunct2, THEN conjunct2, THEN conjunct1]
  note zd = z [THEN conjunct2, THEN conjunct2, THEN conjunct2, THEN conjunct2, THEN conjunct1]
  note tn = t [THEN conjunct2, THEN conjunct2, THEN conjunct2, THEN conjunct2, THEN conjunct2,
      THEN conjunct2, THEN conjunct2, THEN conjunct2, THEN conjunct2]
  have a: "\<exists>q\<in>set danglingInput. \<exists>w\<in>set (s_videos q). v_id w = ''a2''"
    by (simp add: danglingInput_def mkSequence_def mkVideo_def)
  have nz: "\<not> (\<exists>q\<in>set danglingInput. \<exists>w\<in>set (s_videos q). v_id w = ''zz'')"
    by (simp add: danglingInput_def mkSequence_def mkVideo_def)
  have zz: "sourceNodeId danglingInput ''zz'' = None"
    using zd nz by blast
  from tc a obtain q w where
    qw: "q \<in> set danglingInput" "w \<in> set (s_videos q)" "v_id w = ''a2''"
      "sourceNodeId danglingInput ''a2'' = Some (videoNodeId q w)"
      "videoNodeId q w = s_id q @ ''-'' @ ''a2''"
      "videoNodeId q w \<in> set (map node_id (initialNodes danglingInput))"
    by blast
  have "s_id q = ''A''"
    using qw(1,2,3) by (auto simp: danglingInput_def mkSequence_def mkVideo_def)
  then have id: "videoNodeId q w = ''A-a2''"
    using qw(5) by simp
  have r: "sourceNodeId danglingInput ''a2'' = Some ''A-a2''"
    using qw(4) id by simp
  have n: "''A-a2'' \<in> set (map node_id (initialNodes danglingInput))"
    using qw(6) id by simp
  have 1: "map (\<lambda>e. (source e, sourceHandle e, target e, targetHandle e))
      (filter isPrerequisite (initialEdges danglingInput)) =
     [(''A-a2'', ''prereq-out'', ''B-b1'', ''prereq-in'')]"
    by (simp add: danglingInput_def build_defs flowEdge_def dependencyEdge_def isPrerequisite_def)
  have 2: "map (\<lambda>e. (source e, target e))
        (filter isPrerequisite
           (emittedForVideo danglingInput (danglingInput ! 1) initialBuilder
              (0, mkVideo ''b1'' (Some [''a2'', ''zz''])))) =
       [(''A-a2'', ''B-b1'')]"
    unfolding tb
    by (simp add: r zz dependencyEdge_def videoNodeId_def mkVideo_def)
      (simp add: danglingInput_def mkSequence_def)
  have 3: "length (initialNodes danglingInput) = 5
     \<and> length (filter isSequenceFlow (initialEdges danglingInput)) = 3"
    by (simp add: danglingInput_def build_defs flowEdge_def dependencyEdge_def isSequenceFlow_def)
  from 1 2 3 a r n nz zz tw tn show ?thesis by blast
qed

section \<open>Uniqueness of node identifiers\<close>

lemma splitKey_header: "splitKey (headerNodeId s) = (''sequence'', s_id s)"
  by (simp add: splitKey_def headerNodeId_def)

lemma splitKey_video:
  "CHR ''-'' \<notin> set (s_id s) \<Longrightarrow> splitKey (videoNodeId s v) = (s_id s, v_id v)"
proof -
  assume a: "CHR ''-'' \<notin> set (s_id s)"
  then have p: "\<And>c. c \<in> set (s_id s) \<Longrightarrow> c \<noteq> CHR ''-''"
    by blast
  show ?thesis
    by (simp add: splitKey_def videoNodeId_def takeWhile_append2 [OF p] dropWhile_append2 [OF p])
qed

lemma splitKey_sequenceNodeIds:
  "CHR ''-'' \<notin> set (s_id s) \<Longrightarrow> map splitKey (sequenceNodeIds s) = keysOf s"
  by (simp add: sequenceNodeIds_def keysOf_def splitKey_header splitKey_video)

lemma distinct_keysOf:
  "s_id s \<noteq> ''sequence'' \<Longrightarrow> distinct (map v_id (s_videos s)) \<Longrightarrow> distinct (keysOf s)"
  by (auto simp: keysOf_def distinct_map inj_on_def)

lemma keysOf_disjoint:
  "s_id s \<noteq> ''sequence'' \<Longrightarrow> s_id t \<noteq> ''sequence'' \<Longrightarrow> s_id s \<noteq> s_id t \<Longrightarrow>
     set (keysOf s) \<inter> set (keysOf t) = {}"
  by (auto simp: keysOf_def)

lemma distinct_keys:
  "distinct (map s_id ss) \<Longrightarrow> \<forall>s\<in>set ss. s_id s \<noteq> ''sequence'' \<Longrightarrow>
     \<forall>s\<in>set ss. distinct (map v_id (s_videos s)) \<Longrightarrow> distinct (concat (map keysOf ss))"
proof (induction ss)
  case Nil
  show ?case by simp
next
  case (Cons s ss)
  have "\<forall>t\<in>set ss. set (keysOf s) \<inter> set (keysOf t) = {}"
  proof
    fix t assume t: "t \<in> set ss"
    then have "s_id s \<noteq> s_id t" using Cons.prems(1) by auto
    then show "set (keysOf s) \<inter> set (keysOf t) = {}"
      using Cons.prems(2) t by (intro keysOf_disjoint) auto
  qed
  moreover have "distinct (keysOf s)"
    using Cons.prems by (intro distinct_keysOf) auto
  moreover have "distinct (concat (map keysOf ss))"
    using Cons.prems by (intro Cons.IH) auto
  ultimately show ?case by auto
qed

text \<open>
  Claim C3, as stated, fails: unique video identifiers within every sequence do not make
  the node identifiers distinct. The sequences \<^verbatim>\<open>aws\<close> (video \<^verbatim>\<open>ec2-1\<close>) and \<^verbatim>\<open>aws-ec2\<close>
  (video \<^verbatim>\<open>1\<close>) both yield the node \<^verbatim>\<open>aws-ec2-1\<close>; two sequences with the same identifier
  yield the same header node; and a sequence called \<^verbatim>\<open>sequence\<close> with the video \<^verbatim>\<open>aws\<close>
  yields \<^verbatim>\<open>sequence-aws\<close>, the header node of the sequence \<^verbatim>\<open>aws\<close>.
\<close>

theorem node_ids_collide:
  "list_all (\<lambda>s. distinct (map v_id (s_videos s))) hyphenInput
   \<and> \<not> distinct (map node_id (initialNodes hyphenInput))
   \<and> list_all (\<lambda>s. distinct (map v_id (s_videos s))) repeatedInput
   \<and> \<not> distinct (map node_id (initialNodes repeatedInput))
   \<and> list_all (\<lambda>s. distinct (map v_id (s_videos s))) prefixInput
   \<and> \<not> distinct (map node_id (initialNodes prefixInput))"
  by (simp add: hyphenInput_def repeatedInput_def prefixInput_def build_defs)

text \<open>
  Claim C3, amended. When in addition the sequence identifiers are pairwise distinct,
  contain no hyphen and none of them is the word \<^verbatim>\<open>sequence\<close>, the node identifiers of the
  diagram are pairwise distinct.
\<close>

theorem node_ids_distinct:
  assumes "distinct (map s_id sequences)"
    and "\<forall>s\<in>set sequences. CHR ''-'' \<notin> set (s_id s) \<and> s_id s \<noteq> ''sequence''"
    and "\<forall>s\<in>set sequences. distinct (map v_id (s_videos s))"
  shows "distinct (map node_id (initialNodes sequences))"
proof -
  have "map splitKey (concat (map sequenceNodeIds sequences)) = concat (map keysOf sequences)"
    using assms(2) by (simp add: map_concat comp_def splitKey_sequenceNodeIds cong: map_cong)
  moreover have "distinct (concat (map keysOf sequences))"
    using assms by (intro distinct_keys) auto
  ultimately have "distinct (map splitKey (concat (map sequenceNodeIds sequences)))"
    by simp
  then have "distinct (concat (map sequenceNodeIds sequences))"
    by (simp add: distinct_map)
  then show ?thesis by (simp only: node_ids_eq)
qed

theorem node_ids_distinct_witness:
  "distinct (map s_id exampleInput)
   \<and> list_all (\<lambda>s. CHR ''-'' \<notin> set (s_id s) \<and> s_id s \<noteq> ''sequence'') exampleInput
   \<and> list_all (\<lambda>s. distinct (map v_id (s_videos s))) exampleInput
   \<and> distinct (map node_id (initialNodes exampleInput))"
proof -
  have a: "distinct (map s_id exampleInput)"
    by (simp add: exampleInput_def mkSequence_def)
  have b: "\<forall>s\<in>set exampleInput. CHR ''-'' \<notin> set (s_id s) \<and> s_id s \<noteq> ''sequence''"
    by (simp add: exampleInput_def mkSequence_def)
  have c: "\<forall>s\<in>set exampleInput. distinct (map v_id (s_videos s))"
    by (simp add: exampleInput_def mkSequence_def mkVideo_def)
  show ?thesis
    using a b c node_ids_distinct [OF a b c] by (simp add: list_all_iff)
qed

section \<open>The example of the specification\<close>

text \<open>
  Claim C4, as stated, fails on the names of the header nodes: the builder calls them
  \<^verbatim>\<open>sequence-A\<close> and \<^verbatim>\<open>sequence-B\<close>, so no node is called \<^verbatim>\<open>seq-A\<close> and the node set is
  not the stated one.
\<close>

theorem example_nodes_not_seq:
  "set (map node_id (initialNodes exampleInput)) \<noteq> {''seq-A'', ''A-a1'', ''A-a2'', ''seq-B'', ''B-b1''}
   \<and> ''seq-A'' \<notin> set (map node_id (initialNodes exampleInput))"
proof -
  have a: "''seq-A'' \<notin> set (map node_id (initialNodes exampleInput))"
    by (simp add: exampleInput_def build_defs)
  have b: "''seq-A'' \<in> {''seq-A'', ''A-a1'', ''A-a2'', ''seq-B'', ''B-b1''}"
    by simp
  from a b show ?thesis by metis
qed

text \<open>
  Claim C4, amended. On the example the builder produces exactly the nodes
  \<^verbatim>\<open>sequence-A\<close>, \<^verbatim>\<open>A-a1\<close>, \<^verbatim>\<open>A-a2\<close>, \<^verbatim>\<open>sequence-B\<close>, \<^verbatim>\<open>B-b1\<close> and exactly the edges
  \<^verbatim>\<open>sequence-A\<close> to \<^verbatim>\<open>A-a1\<close>, \<^verbatim>\<open>A-a1\<close> to \<^verbatim>\<open>A-a2\<close>, \<^verbatim>\<open>sequence-B\<close> to \<^verbatim>\<open>B-b1\<close> and
  \<^verbatim>\<open>A-a2\<close> to \<^verbatim>\<open>B-b1\<close>, the last being the only prerequisite edge and the other three
  the sequence-flow edges.
\<close>

theorem example_diagram:
  "map node_id (initialNodes exampleInput) = [''sequence-A'', ''A-a1'', ''A-a2'', ''sequence-B'', ''B-b1'']
   \<and> map (\<lambda>e. (source e, target e)) (initialEdges exampleInput) =
       [(''sequence-A'', ''A-a1''), (''A-a1'', ''A-a2''), (''sequence-B'', ''B-b1''), (''A-a2'', ''B-b1'')]
   \<and> filter isPrerequisite (initialEdges exampleInput) = [dependencyEdge ''A-a2'' ''B-b1'']
   \<and> filter isSequenceFlow (initialEdges exampleInput) =
       [flowEdge ''sequence-A'' ''A-a1'' [], flowEdge ''A-a1'' ''A-a2'' [], flowEdge ''sequence-B'' ''B-b1'' []]"
  by (simp add: exampleInput_def build_defs flowEdge_def dependencyEdge_def isPrerequisite_def isSequenceFlow_def)

section \<open>The URL-pattern recognizer: when an identifier is returned\<close>

lemma takeWhile_nonempty: "takeWhile P xs \<noteq> [] \<longleftrightarrow> (\<exists>c rest. xs = c # rest \<and> P c)"
  by (cases xs) auto

lemma matchAlternative_Some:
  "matchAlternative p s = Some g \<longleftrightarrow>
     (\<exists>rest. s = p @ rest \<and> g = takeWhile idChar rest \<and> g \<noteq> [])"
  by (auto simp: matchAlternative_def prefix_def)

lemma matchAlternative_found:
  "matchAlternative p s \<noteq> None \<longleftrightarrow> (\<exists>c rest. s = p @ c # rest \<and> idChar c)"
proof -
  have "matchAlternative p s \<noteq> None \<longleftrightarrow> (\<exists>g. matchAlternative p s = Some g)"
    by auto
  also have "\<dots> \<longleftrightarrow> (\<exists>rest. s = p @ rest \<and> takeWhile idChar rest \<noteq> [])"
    by (auto simp: matchAlternative_Some)
  also have "\<dots> \<longleftrightarrow> (\<exists>c rest. s = p @ c # rest \<and> idChar c)"
    by (auto simp: takeWhile_nonempty)
  finally show ?thesis .
qed

lemma matchAlternatives_found:
  "matchAlternatives ps s \<noteq> None \<longleftrightarrow>
     (\<exists>p c rest. p \<in> set ps \<and> s = p @ c # rest \<and> idChar c)"
proof (induction ps)
  case Nil
  show ?case by simp
next
  case (Cons p ps)
  have "matchAlternatives (p # ps) s \<noteq> None \<longleftrightarrow>
      matchAlternative p s \<noteq> None \<or> matchAlternatives ps s \<noteq> None"
    by (simp split: option.splits)
  then show ?case
    unfolding Cons.IH matchAlternative_found by auto
qed

lemma matchAlternatives_Some:
  "matchAlternatives ps s = Some g \<Longrightarrow>
     \<exists>p rest. p \<in> set ps \<and> s = p @ rest \<and> g = takeWhile idChar rest \<and> g \<noteq> []"
proof (induction ps)
  case Nil
  then show ?case by simp
next
  case (Cons p ps)
  show ?case
  proof (cases "matchAlternative p s")
    case None
    with Cons show ?thesis by auto
  next
    case (Some h)
    with Cons.prems have "matchAlternative p s = Some g" by simp
    then show ?thesis by (auto simp: matchAlternative_Some)
  qed
qed

lemma regexSearch_found:
  "regexSearch s \<noteq> None \<longleftrightarrow>
     (\<exists>pre p c rest. s = pre @ p @ c # rest \<and> p \<in> set shapes \<and> idChar c)"
proof (induction s)
  case Nil
  have "matchAlternatives shapes [] = None"
    using matchAlternatives_found [of shapes "[]"] by simp
  then show ?case by simp
next
  case (Cons a s)
  have l: "regexSearch (a # s) \<noteq> None \<longleftrightarrow>
      matchAlternatives shapes (a # s) \<noteq> None \<or> regexSearch s \<noteq> None"
    by (simp split: option.splits)
  have r: "(\<exists>pre p c rest. a # s = pre @ p @ c # rest \<and> p \<in> set shapes \<and> idChar c) \<longleftrightarrow>
      (\<exists>p c rest. p \<in> set shapes \<and> a # s = p @ c # rest \<and> idChar c)
      \<or> (\<exists>pre p c rest. s = pre @ p @ c # rest \<and> p \<in> set shapes \<and> idChar c)"
  proof
    assume "\<exists>pre p c rest. a # s = pre @ p @ c # rest \<and> p \<in> set shapes \<and> idChar c"
    then obtain pre p c rest where h: "a # s = pre @ p @ c # rest" "p \<in> set shapes" "idChar c"
      by blast
    show "(\<exists>p c rest. p \<in> set shapes \<and> a # s = p @ c # rest \<and> idChar c)
      \<or> (\<exists>pre p c rest. s = pre @ p @ c # rest \<and> p \<in> set shapes \<and> idChar c)"
    proof (cases pre)
      case Nil
      with h show ?thesis by auto
    next
      case (Cons b pre')
      with h have "s = pre' @ p @ c # rest" by simp
      with h show ?thesis by blast
    qed
  next
    assume "(\<exists>p c rest. p \<in> set shapes \<and> a # s = p @ c # rest \<and> idChar c)
      \<or> (\<exists>pre p c rest. s = pre @ p @ c # rest \<and> p \<in> set shapes \<and> idChar c)"
    then show "\<exists>pre p c rest. a # s = pre @ p @ c # rest \<and> p \<in> set shapes \<and> idChar c"
    proof
      assume "\<exists>p c rest. p \<in> set shapes \<and> a # s = p @ c # rest \<and> idChar c"
      then obtain p c rest where "p \<in> set shapes" "a # s = [] @ p @ c # rest" "idChar c"
        by auto
      then show ?thesis by blast
    next
      assume "\<exists>pre p c rest. s = pre @ p @ c # rest \<and> p \<in> set shapes \<and> idChar c"
      then obtain pre p c rest where "s = pre @ p @ c # rest" "p \<in> set shapes" "idChar c"
        by blast
      then have "a # s = (a # pre) @ p @ c # rest" "p \<in> set shapes" "idChar c"
        by simp_all
      then show ?thesis by blast
    qed
  qed
  show ?case
    unfolding l r Cons.IH matchAlternatives_found ..
qed

lemma regexSearch_Some:
  "regexSearch s = Some g \<Longrightarrow>
     \<exists>pre p rest. s = pre @ p @ rest \<and> p \<in> set shapes \<and> g = takeWhile idChar rest \<and> g \<noteq> []"
proof (induction s)
  case Nil
  then have "matchAlternatives shapes [] = Some g" by simp
  from matchAlternatives_Some [OF this] show ?case by auto
next
  case (Cons a s)
  show ?case
  proof (cases "matchAlternatives shapes (a # s)")
    case None
    with Cons.prems have "regexSearch s = Some g" by simp
    from Cons.IH [OF this] obtain pre p rest where
      h: "s = pre @ p @ rest" "p \<in> set shapes" "g = takeWhile idChar rest" "g \<noteq> []"
      by blast
    then have "a # s = (a # pre) @ p @ rest" by simp
    with h show ?thesis by blast
  next
    case (Some h)
    with Cons.prems have "matchAlternatives shapes (a # s) = Some g" by simp
    from matchAlternatives_Some [OF this] obtain p rest where
      "p \<in> set shapes" "a # s = [] @ p @ rest" "g = takeWhile idChar rest" "g \<noteq> []"
      by auto
    then show ?thesis by blast
  qed
qed

lemma list_all_takeWhile: "list_all P (takeWhile P xs)"
  by (induction xs) simp_all

lemma sublist_shape_char:
  "(\<exists>pre p c rest. url = pre @ p @ c # rest \<and> p \<in> set shapes \<and> idChar c) \<longleftrightarrow>
     (\<exists>p c. p \<in> set shapes \<and> idChar c \<and> sublist (p @ [c]) url)"
proof
  assume "\<exists>pre p c rest. url = pre @ p @ c # rest \<and> p \<in> set shapes \<and> idChar c"
  then obtain pre p c rest where h: "url = pre @ p @ c # rest" "p \<in> set shapes" "idChar c"
    by blast
  then have "url = pre @ (p @ [c]) @ rest" by simp
  then have "sublist (p @ [c]) url" unfolding sublist_def by blast
  with h show "\<exists>p c. p \<in> set shapes \<and> idChar c \<and> sublist (p @ [c]) url" by blast
next
  assume "\<exists>p c. p \<in> set shapes \<and> idChar c \<and> sublist (p @ [c]) url"
  then obtain p c pre rest where h: "p \<in> set shapes" "idChar c" "url = pre @ (p @ [c]) @ rest"
    unfolding sublist_def by blast
  then have "url = pre @ p @ c # rest" by simp
  with h show "\<exists>pre p c rest. url = pre @ p @ c # rest \<and> p \<in> set shapes \<and> idChar c" by blast
qed

lemma regexSearch_sublist:
  assumes "regexSearch url = Some g"
  shows "g \<noteq> [] \<and> list_all idChar g \<and> (\<exists>p. p \<in> set shapes \<and> sublist (p @ g) url)"
proof -
  from regexSearch_Some [OF assms] obtain pre p rest where
    h: "url = pre @ p @ rest" "p \<in> set shapes" "g = takeWhile idChar rest" "g \<noteq> []"
    by blast
  have "rest = g @ dropWhile idChar rest"
    by (simp add: h(3))
  then have "url = pre @ (p @ g) @ dropWhile idChar rest"
    using h(1) by simp
  then have "sublist (p @ g) url"
    unfolding sublist_def by blast
  moreover have "list_all idChar g"
    unfolding h(3) by (rule list_all_takeWhile)
  ultimately show ?thesis using h by blast
qed

text \<open>
  Claim C7, as stated, fails when "matches a shape" is read as "contains one of the three
  fixed strings": the pattern asks for at least one identifier character after the fixed
  string, so \<^verbatim>\<open>https://youtu.be/\<close> and \<^verbatim>\<open>https://www.youtube.com/watch?v=&t=3\<close> contain
  a shape and yet give no identifier and no embedded player.
\<close>

theorem bare_shape_gives_no_identifier:
  "containsShape ''https://youtu.be/''
   \<and> getYouTubeVideoId ''https://youtu.be/'' = None
   \<and> \<not> showsEmbed ''https://youtu.be/''
   \<and> containsShape ''https://www.youtube.com/watch?v=&t=3''
   \<and> getYouTubeVideoId ''https://www.youtube.com/watch?v=&t=3'' = None
   \<and> \<not> showsEmbed ''https://www.youtube.com/watch?v=&t=3''"
proof -
  have a: "containsShape ''https://youtu.be/''"
    by (simp add: containsShape_def shapes_def sublist_Cons_right)
  have b: "containsShape ''https://www.youtube.com/watch?v=&t=3''"
    by (simp add: containsShape_def shapes_def sublist_Cons_right)
  have c: "getYouTubeVideoId ''https://youtu.be/'' = None"
    by (simp add: getYouTubeVideoId_def shapes_def matchAlternative_def idChar_def)
  have d: "getYouTubeVideoId ''https://www.youtube.com/watch?v=&t=3'' = None"
    by (simp add: getYouTubeVideoId_def shapes_def matchAlternative_def idChar_def)
  show ?thesis
    using a b c d by (simp add: showsEmbed_def)
qed

text \<open>
  Claim C7, amended. The recognizer returns an identifier exactly when the URL contains
  one of the three fixed strings immediately followed by a character other than \<^verbatim>\<open>&\<close>,
  newline, \<^verbatim>\<open>?\<close> and \<^verbatim>\<open>#\<close>; the identifier is then a non-empty run of such characters
  that follows one of the fixed strings in the URL, and the embedded player is shown
  exactly in this case. A URL that contains none of the fixed strings gives no identifier
  and no embedded player. The recognizer is total: it has no failing branch.
\<close>

theorem url_recognizer:
  "(getYouTubeVideoId url \<noteq> None) =
     (\<exists>p c. p \<in> set shapes \<and> idChar c \<and> sublist (p @ [c]) url)
   \<and> showsEmbed url = (getYouTubeVideoId url \<noteq> None)
   \<and> (getYouTubeVideoId url = Some g \<longrightarrow>
        g \<noteq> [] \<and> list_all idChar g \<and> (\<exists>p. p \<in> set shapes \<and> sublist (p @ g) url))
   \<and> (\<not> containsShape url \<longrightarrow> getYouTubeVideoId url = None \<and> \<not> showsEmbed url)"
proof -
  have a: "(getYouTubeVideoId url \<noteq> None) =
     (\<exists>p c. p \<in> set shapes \<and> idChar c \<and> sublist (p @ [c]) url)"
    unfolding getYouTubeVideoId_def regexSearch_found by (rule sublist_shape_char)
  have c: "getYouTubeVideoId url = Some g \<longrightarrow>
        g \<noteq> [] \<and> list_all idChar g \<and> (\<exists>p. p \<in> set shapes \<and> sublist (p @ g) url)"
    unfolding getYouTubeVideoId_def using regexSearch_sublist [of url g] by blast
  have b: "showsEmbed url = (getYouTubeVideoId url \<noteq> None)"
  proof (cases "getYouTubeVideoId url")
    case None
    then show ?thesis by (simp add: showsEmbed_def)
  next
    case (Some h)
    then have "h \<noteq> []"
      unfolding getYouTubeVideoId_def using regexSearch_sublist [of url h] by blast
    with Some show ?thesis by (simp add: showsEmbed_def)
  qed
  have "sublist p url" if "sublist (p @ [c]) url" for p c
    using that unfolding sublist_def by auto
  then have "containsShape url" if "getYouTubeVideoId url \<noteq> None"
    using that a unfolding containsShape_def list_ex_iff by blast
  then have d: "\<not> containsShape url \<longrightarrow> getYouTubeVideoId url = None \<and> \<not> showsEmbed url"
    using b by blast
  from a b c d show ?thesis by blast
qed

theorem url_recognizer_witness:
  "getYouTubeVideoId ''https://youtu.be/abc?t=3'' = Some ''abc''
   \<and> showsEmbed ''https://youtu.be/abc?t=3''
   \<and> list_all idChar ''abc''
   \<and> (\<exists>p. p \<in> set shapes \<and> sublist (p @ ''abc'') ''https://youtu.be/abc?t=3'')
   \<and> \<not> containsShape ''https://vimeo.com/1''
   \<and> getYouTubeVideoId ''https://vimeo.com/1'' = None
   \<and> \<not> showsEmbed ''https://vimeo.com/1''"
proof -
  have g: "getYouTubeVideoId ''https://youtu.be/abc?t=3'' = Some ''abc''"
    by (simp add: getYouTubeVideoId_def shapes_def matchAlternative_def idChar_def)
  have m: "\<not> containsShape ''https://vimeo.com/1''"
    by (simp add: containsShape_def shapes_def sublist_Cons_right)
  from url_recognizer [of "''https://youtu.be/abc?t=3''" "''abc''"]
    url_recognizer [of "''https://vimeo.com/1''" "''abc''"] g m
  show ?thesis by simp
qed

end
